theory Spec2Isabelle
  imports Main "HOL-Library.Char_ord" "HOL-Library.List_Lexorder"
begin

section \<open>Decimal numbers: sdk.Dec\<close>

text \<open>
  Modelled from the spec: the type sdk.Dec comes from the imported package
  github.com/cosmos/cosmos-sdk/types, which is not among the sources. The spec calls its
  values "exact, deterministic fixed-point decimal numbers". The fixed point of the
  library is at 18 decimal places: a Dec is a big integer, the number times 10 to the
  18, so the integer 1 stands for 0.000000000000000001. A result whose integer needs more than 315 bits makes the library
  panic with "Int overflow".
\<close>

type_synonym Dec = int

definition Precision :: nat where
  "Precision = 18"

definition precisionReuse :: int where
  "precisionReuse = 10 ^ Precision"

definition fivePrecision :: int where
  "fivePrecision = precisionReuse div 2"

definition maxDecBitLen :: nat where
  "maxDecBitLen = 315"

datatype panic = NegativeCoinAmount | IntOverflow

text \<open>
  Modelled from the spec: the test \<open>BitLen() > maxDecBitLen\<close> of the library (not
  among the sources): the bit length of the absolute value exceeds 315.
\<close>

definition overflows :: "int \<Rightarrow> bool" where
  "overflows i = (2 ^ maxDecBitLen \<le> \<bar>i\<bar>)"

text \<open>Modelled from the spec: sdk.NewDec (not among the sources), the Dec of a whole number.\<close>

definition NewDec :: "int \<Rightarrow> Dec" where
  "NewDec n = n * precisionReuse"

text \<open>
  Modelled from the spec: Dec.Add (not among the sources) adds the two integers and
  panics when the sum overflows.
\<close>

definition Dec_Add :: "Dec \<Rightarrow> Dec \<Rightarrow> panic + Dec" where
  "Dec_Add d d2 = (if overflows (d + d2) then Inl IntOverflow else Inr (d + d2))"

text \<open>Modelled from the spec: Dec.Neg (not among the sources); it makes no range check.\<close>

definition Dec_Neg :: "Dec \<Rightarrow> Dec" where
  "Dec_Neg d = - d"

text \<open>
  Modelled from the spec: chopPrecisionAndRound (not among the sources) removes 18
  decimal places from a product, rounding half to even (banker's rounding). The library
  treats a negative argument by negating it, rounding, and negating the result;
  \<open>chopMagnitude\<close> is its body for an argument that is not negative.
\<close>

definition chopMagnitude :: "int \<Rightarrow> int" where
  "chopMagnitude d =
     (let quo = d div precisionReuse; rem = d mod precisionReuse
      in if rem = 0 then quo
         else if rem < fivePrecision then quo
         else if fivePrecision < rem then quo + 1
         else if even quo then quo
         else quo + 1)"

definition chopPrecisionAndRound :: "int \<Rightarrow> int" where
  "chopPrecisionAndRound d = (if d < 0 then - chopMagnitude (- d) else chopMagnitude d)"

text \<open>
  Modelled from the spec: Dec.Mul (not among the sources) multiplies the two integers,
  chops and rounds the product to 18 decimal places, and panics when the result
  overflows.
\<close>

definition Dec_Mul :: "Dec \<Rightarrow> Dec \<Rightarrow> panic + Dec" where
  "Dec_Mul d d2 =
     (let chopped = chopPrecisionAndRound (d * d2)
      in if overflows chopped then Inl IntOverflow else Inr chopped)"

section \<open>Decimal coin sets: sdk.DecCoins\<close>

text \<open>
  Modelled from the spec: the types sdk.DecCoin and sdk.DecCoins come from the same
  library, which is not among the sources. The spec gives their contract:
  "multi-denomination decimal coin sets (mapping from denomination string to a decimal
  amount, denominations present only when non-zero, arithmetic defined per-denomination
  with union-of-keys semantics)". A coin set is the slice of (denomination, amount)
  pairs that the Go type is.
\<close>

type_synonym DecCoin = "string \<times> Dec"
type_synonym DecCoins = "DecCoin list"

text \<open>
  Modelled from the spec: DecCoins.AmountOf (not among the sources) reads one
  denomination of a coin set, "missing denomination treated as zero".
\<close>

definition AmountOf :: "DecCoins \<Rightarrow> string \<Rightarrow> Dec" where
  "AmountOf coins denom = (case map_of coins denom of None \<Rightarrow> 0 | Some a \<Rightarrow> a)"

text \<open>
  The well-formed coin sets: the denominations stand in strictly increasing order, so
  every denomination occurs at most once and the slice is a mapping.
\<close>

definition denomsSorted :: "DecCoins \<Rightarrow> bool" where
  "denomsSorted coins = sorted_wrt (<) (map fst coins)"

text \<open>
  Modelled from the spec: removeZeroDecCoins (not among the sources) keeps
  "denominations present only when non-zero".
\<close>

definition removeZeroDecCoins :: "DecCoins \<Rightarrow> DecCoins" where
  "removeZeroDecCoins coins = filter (\<lambda>coin. snd coin \<noteq> 0) coins"

text \<open>
  Modelled from the spec: DecCoins.safeAdd (not among the sources), the addition
  "defined per-denomination with union-of-keys semantics": a merge of the two slices by
  denomination that adds the amounts of a denomination present in both with Dec.Add,
  whose panic ends the merge, and leaves out every zero amount.
\<close>

fun safeAdd :: "DecCoins \<Rightarrow> DecCoins \<Rightarrow> panic + DecCoins" where
  "safeAdd [] coinsB = Inr (removeZeroDecCoins coinsB)"
| "safeAdd coinsA [] = Inr (removeZeroDecCoins coinsA)"
| "safeAdd ((denomA, amtA) # restA) ((denomB, amtB) # restB) =
     (if denomA < denomB then
        (case safeAdd restA ((denomB, amtB) # restB) of
           Inl p \<Rightarrow> Inl p
         | Inr rest \<Rightarrow> Inr ((if amtA \<noteq> 0 then [(denomA, amtA)] else []) @ rest))
      else if denomA = denomB then
        (case Dec_Add amtA amtB of
           Inl p \<Rightarrow> Inl p
         | Inr res \<Rightarrow>
             (case safeAdd restA restB of
                Inl p \<Rightarrow> Inl p
              | Inr rest \<Rightarrow> Inr ((if res \<noteq> 0 then [(denomA, res)] else []) @ rest)))
      else
        (case safeAdd ((denomA, amtA) # restA) restB of
           Inl p \<Rightarrow> Inl p
         | Inr rest \<Rightarrow> Inr ((if amtB \<noteq> 0 then [(denomB, amtB)] else []) @ rest)))"

text \<open>Modelled from the spec: DecCoins.Add (not among the sources).\<close>

definition Add :: "DecCoins \<Rightarrow> DecCoins \<Rightarrow> panic + DecCoins" where
  "Add coins coinsB = safeAdd coins coinsB"

text \<open>
  Modelled from the spec: DecCoins.negative (not among the sources) negates every
  amount.
\<close>

definition negative :: "DecCoins \<Rightarrow> DecCoins" where
  "negative coins = map (\<lambda>coin. (fst coin, Dec_Neg (snd coin))) coins"

text \<open>
  Modelled from the spec: DecCoins.IsAnyNegative (not among the sources): "negative in
  any denomination".
\<close>

definition IsAnyNegative :: "DecCoins \<Rightarrow> bool" where
  "IsAnyNegative coins = list_ex (\<lambda>coin. snd coin < 0) coins"

text \<open>
  Modelled from the spec: DecCoins.SafeSub (not among the sources) computes
  "customValue - oldValue per-denomination (missing entries as zero)" and reports
  whether "the result is negative in any denomination".
\<close>

definition SafeSub :: "DecCoins \<Rightarrow> DecCoins \<Rightarrow> panic + DecCoins \<times> bool" where
  "SafeSub coins coinsB =
     (case safeAdd coins (negative coinsB) of
        Inl p \<Rightarrow> Inl p
      | Inr diff \<Rightarrow> Inr (diff, IsAnyNegative diff))"

text \<open>
  Modelled from the spec: DecCoins.Sub (not among the sources) is the subtraction of
  the reward formula. It has no error result; where SafeSub reports a negative amount
  it panics ("negative coin amount"), the failure that the precondition of the reward
  formula rules out.
\<close>

definition Sub :: "DecCoins \<Rightarrow> DecCoins \<Rightarrow> panic + DecCoins" where
  "Sub coins coinsB =
     (case SafeSub coins coinsB of
        Inl p \<Rightarrow> Inl p
      | Inr (diff, hasNeg) \<Rightarrow> if hasNeg then Inl NegativeCoinAmount else Inr diff)"

text \<open>
  Modelled from the spec: DecCoins.MulDec (not among the sources), the "scalar multiply
  ... performed per-denomination": a loop over the coins that multiplies every amount
  by the decimal with Dec.Mul and adds every product that is not zero to the result
  with Add. \<open>MulDec_loop\<close> is the loop, with the result so far as its first argument.
\<close>

fun MulDec_loop :: "DecCoins \<Rightarrow> DecCoins \<Rightarrow> Dec \<Rightarrow> panic + DecCoins" where
  "MulDec_loop res [] d = Inr res"
| "MulDec_loop res (coin # coins) d =
     (case Dec_Mul (snd coin) d of
        Inl p \<Rightarrow> Inl p
      | Inr amount \<Rightarrow>
          if amount \<noteq> 0 then
            (case Add res [(fst coin, amount)] of
               Inl p \<Rightarrow> Inl p
             | Inr res' \<Rightarrow> MulDec_loop res' coins d)
          else MulDec_loop res coins d)"

definition MulDec :: "DecCoins \<Rightarrow> Dec \<Rightarrow> panic + DecCoins" where
  "MulDec coins d = MulDec_loop [] coins d"

text \<open>
  The coin sets that safeAdd and MulDec return when no decimal operation overflows:
  the merge with plain integer sums, and the coins with rounded plain products.
\<close>

fun sumCoins :: "DecCoins \<Rightarrow> DecCoins \<Rightarrow> DecCoins" where
  "sumCoins [] coinsB = removeZeroDecCoins coinsB"
| "sumCoins coinsA [] = removeZeroDecCoins coinsA"
| "sumCoins ((denomA, amtA) # restA) ((denomB, amtB) # restB) =
     (if denomA < denomB then
        (if amtA \<noteq> 0 then [(denomA, amtA)] else []) @ sumCoins restA ((denomB, amtB) # restB)
      else if denomA = denomB then
        (if amtA + amtB \<noteq> 0 then [(denomA, amtA + amtB)] else []) @ sumCoins restA restB
      else
        (if amtB \<noteq> 0 then [(denomB, amtB)] else []) @ sumCoins ((denomA, amtA) # restA) restB)"

definition scaleCoins :: "DecCoins \<Rightarrow> Dec \<Rightarrow> DecCoins" where
  "scaleCoins coins d =
     removeZeroDecCoins (map (\<lambda>coin. (fst coin, chopPrecisionAndRound (snd coin * d))) coins)"

section \<open>Position records and the accumulator object\<close>

text \<open>
  Modelled from the spec: the struct Record is declared in a file of the package accum
  that is not among the sources. Its four fields are the ones initOrUpdatePosition
  fills in; the spec names them numShares, initAccumValue, unclaimedRewards and options,
  the last "an opaque, caller-defined configuration bundle", here a type parameter
  behind a pointer that may be nil.
\<close>

record 'o Record =
  NumShares :: Dec
  InitAccumValue :: DecCoins
  UnclaimedRewards :: DecCoins
  Options :: "'o option"

text \<open>
  Modelled from the spec: the key-value store (sdk.KVStore) is "a simple get/set/has-exists
  contract keyed by (accumulator name, position index)". A stored value is the encoding
  of a record, or bytes that do not decode to one.
\<close>

datatype 'o stored = Marshalled "'o Record" | Undecodable

type_synonym 'o KVStore = "string \<times> string \<Rightarrow> 'o stored option"

text \<open>
  Modelled from the spec: the struct AccumulatorObject is declared in a file of the
  package accum that is not among the sources. The source reads its fields store, name
  and value; the spec adds totalShares.
\<close>

record 'o AccumulatorObject =
  store :: "'o KVStore"
  name :: string
  accumValue :: DecCoins
  totalShares :: Dec

datatype error =
    NoPositionError string
  | NegativeCustomAccError DecCoins
  | NegativeAccDifferenceError DecCoins
  | UnmarshalError

text \<open>
  Modelled from the spec: formatPositionPrefixKey is defined in a file of the package
  accum that is not among the sources; positions are "keyed by (accumulator name,
  position index)".
\<close>

definition formatPositionPrefixKey :: "string \<Rightarrow> string \<Rightarrow> string \<times> string" where
  "formatPositionPrefixKey accumName index = (accumName, index)"

text \<open>
  Modelled from the spec: osmoutils.MustSet is not among the sources; it is the "set" of
  the store contract, which "unconditionally writes" the encoded record under the key.
  The store after the call is the result.
\<close>

definition MustSet :: "'o KVStore \<Rightarrow> string \<times> string \<Rightarrow> 'o Record \<Rightarrow> 'o KVStore" where
  "MustSet st key position = st(key \<mapsto> Marshalled position)"

text \<open>
  Modelled from the spec: osmoutils.Get is not among the sources; it is the "get" of the
  store contract. It reports whether the key is present and decodes the value into the
  record passed by reference, with an error when the value does not decode. It is a
  read: the store after the call, the last component of the result, is the store before.
\<close>

definition osmoutils_Get ::
  "'o KVStore \<Rightarrow> string \<times> string \<Rightarrow> 'o Record \<Rightarrow> bool \<times> error option \<times> 'o Record \<times> 'o KVStore" where
  "osmoutils_Get st key result =
     (case st key of
        None \<Rightarrow> (False, None, result, st)
      | Some Undecodable \<Rightarrow> (True, Some UnmarshalError, result, st)
      | Some (Marshalled r) \<Rightarrow> (True, None, r, st))"

text \<open>The zero value \<open>Record{}\<close> of the source.\<close>

definition zeroRecord :: "'o Record" where
  "zeroRecord = \<lparr>NumShares = 0, InitAccumValue = [], UnclaimedRewards = [], Options = None\<rparr>"

section \<open>The helper functions of the package accum\<close>

text \<open>The constant \<open>minusOne = sdk.NewDec(-1)\<close>.\<close>

definition minusOne :: Dec where
  "minusOne = NewDec (- 1)"

text \<open>
  initOrUpdatePosition builds the record from its arguments and sets it under the key of
  (accum.name, index). The store is the only thing written, so the accumulator object
  with the store after the call is the result.
\<close>

definition initOrUpdatePosition ::
  "'o AccumulatorObject \<Rightarrow> DecCoins \<Rightarrow> string \<Rightarrow> Dec \<Rightarrow> DecCoins \<Rightarrow> 'o option
     \<Rightarrow> 'o AccumulatorObject" where
  "initOrUpdatePosition accum accumulatorValue index numShareUnits unclaimedRewards options =
     (let position = \<lparr>NumShares = numShareUnits,
                      InitAccumValue = accumulatorValue,
                      UnclaimedRewards = unclaimedRewards,
                      Options = options\<rparr>
      in accum\<lparr>store := MustSet (store accum) (formatPositionPrefixKey (name accum) index) position\<rparr>)"

text \<open>
  getPosition returns the pair (Record, error) of the source as a sum, together with the
  accumulator object after the call.
\<close>

definition getPosition ::
  "'o AccumulatorObject \<Rightarrow> string \<Rightarrow> (error + 'o Record) \<times> 'o AccumulatorObject" where
  "getPosition accum nm =
     (case osmoutils_Get (store accum) (formatPositionPrefixKey (name accum) nm) zeroRecord of
        (found, err, position, st) \<Rightarrow>
          (case err of
             Some e \<Rightarrow> (Inl e, accum\<lparr>store := st\<rparr>)
           | None \<Rightarrow>
               if \<not> found then (Inl (NoPositionError nm), accum\<lparr>store := st\<rparr>)
               else (Inr position, accum\<lparr>store := st\<rparr>)))"

text \<open>
  getTotalRewards has the single result DecCoins and no error; its other outcomes are
  the panics of the four library calls, taken in the order in which the source makes
  them: Add, Sub, MulDec, Add.
\<close>

definition getTotalRewards ::
  "'o AccumulatorObject \<Rightarrow> 'o Record \<Rightarrow> DecCoins \<Rightarrow> panic + DecCoins" where
  "getTotalRewards accum position feeGrowthOutside =
     (let totalRewards = UnclaimedRewards position in
      case Add (InitAccumValue position) feeGrowthOutside of
        Inl p \<Rightarrow> Inl p
      | Inr initPlusGrowth \<Rightarrow>
          (case Sub (accumValue accum) initPlusGrowth of
             Inl p \<Rightarrow> Inl p
           | Inr diff \<Rightarrow>
               (case MulDec diff (NumShares position) of
                  Inl p \<Rightarrow> Inl p
                | Inr accumulatorRewards \<Rightarrow> Add totalRewards accumulatorRewards)))"

text \<open>
  validateAccumulatorValue returns an error or nil (\<open>None\<close>), unless a library call
  panics.
\<close>

definition validateAccumulatorValue :: "DecCoins \<Rightarrow> DecCoins \<Rightarrow> panic + error option" where
  "validateAccumulatorValue customAccumulatorValue oldPositionAccumulatorValue =
     (if IsAnyNegative customAccumulatorValue then
        Inr (Some (NegativeCustomAccError customAccumulatorValue))
      else
        (case SafeSub customAccumulatorValue oldPositionAccumulatorValue of
           Inl p \<Rightarrow> Inl p
         | Inr (newValue, isAnyNegative) \<Rightarrow>
             if isAnyNegative then
               (case MulDec newValue minusOne of
                  Inl p \<Rightarrow> Inl p
                | Inr deficit \<Rightarrow> Inr (Some (NegativeAccDifferenceError deficit)))
             else Inr None))"

section \<open>Claiming rewards\<close>




section \<open>Coin sets as mappings\<close>

text \<open>
  The lemmas of this section read coin sets denomination by denomination: on slices
  sorted by denomination, sumCoins adds the amounts, negative negates them, scaleCoins
  multiplies and rounds them, and the results are again sorted and free of zero amounts.
\<close>

lemma AmountOf_Nil: "AmountOf [] d = 0"
  by (simp add: AmountOf_def)

lemma AmountOf_Cons: "AmountOf ((k, v) # xs) d = (if d = k then v else AmountOf xs d)"
  by (simp add: AmountOf_def)

lemma denomsSorted_Nil: "denomsSorted []"
  by (simp add: denomsSorted_def)

lemma denomsSorted_Cons:
  "denomsSorted ((k, v) # xs) \<longleftrightarrow> (\<forall>c \<in> set xs. k < fst c) \<and> denomsSorted xs"
  by (auto simp: denomsSorted_def)

lemma AmountOf_notin: "d \<notin> fst ` set xs \<Longrightarrow> AmountOf xs d = 0"
  by (induction xs) (auto simp: AmountOf_Nil AmountOf_Cons)

lemma AmountOf_below:
  "\<forall>c \<in> set xs. k < fst c \<Longrightarrow> d \<le> k \<Longrightarrow> AmountOf xs d = 0"
  by (rule AmountOf_notin) auto

lemma AmountOf_member:
  "denomsSorted xs \<Longrightarrow> (k, v) \<in> set xs \<Longrightarrow> AmountOf xs k = v"
proof (induction xs)
  case Nil
  then show ?case by simp
next
  case (Cons c xs)
  obtain k' v' where c: "c = (k', v')" by (cases c)
  from Cons.prems(1) have below: "\<forall>c \<in> set xs. k' < fst c" and srt: "denomsSorted xs"
    by (simp_all add: c denomsSorted_Cons)
  show ?case
  proof (cases "(k, v) = (k', v')")
    case True
    then show ?thesis by (simp add: c AmountOf_Cons)
  next
    case False
    with Cons.prems(2) have mem: "(k, v) \<in> set xs" by (auto simp: c)
    with below have "k' < k" by force
    then have "k \<noteq> k'" by auto
    with Cons.IH [OF srt mem] show ?thesis by (simp add: c AmountOf_Cons)
  qed
qed

lemma AmountOf_removeZero:
  "denomsSorted xs \<Longrightarrow> AmountOf (removeZeroDecCoins xs) d = AmountOf xs d"
proof (induction xs)
  case Nil
  then show ?case by (simp add: removeZeroDecCoins_def)
next
  case (Cons c xs)
  obtain k v where c: "c = (k, v)" by (cases c)
  from Cons.prems have below: "\<forall>c \<in> set xs. k < fst c" and srt: "denomsSorted xs"
    by (simp_all add: c denomsSorted_Cons)
  have ih: "AmountOf (removeZeroDecCoins xs) d = AmountOf xs d"
    using Cons.IH srt by simp
  have zero: "d = k \<Longrightarrow> AmountOf xs d = 0"
    using AmountOf_below [OF below, of d] by simp
  show ?case
    using ih zero by (auto simp: c removeZeroDecCoins_def AmountOf_Cons)
qed

lemma keys_removeZero: "fst ` set (removeZeroDecCoins xs) \<subseteq> fst ` set xs"
  by (auto simp: removeZeroDecCoins_def)

lemma denomsSorted_removeZero: "denomsSorted xs \<Longrightarrow> denomsSorted (removeZeroDecCoins xs)"
  unfolding denomsSorted_def removeZeroDecCoins_def
  by (induction xs) auto

lemma nonzero_removeZero: "c \<in> set (removeZeroDecCoins xs) \<Longrightarrow> snd c \<noteq> 0"
  by (simp add: removeZeroDecCoins_def)

lemma keys_sumCoins: "fst ` set (sumCoins a b) \<subseteq> fst ` set a \<union> fst ` set b"
proof (induction a b rule: sumCoins.induct)
  case (1 coinsB)
  then show ?case using keys_removeZero [of coinsB] by simp
next
  case (2 v va)
  then show ?case using keys_removeZero [of "v # va"] by simp
next
  case (3 denomA amtA restA denomB amtB restB)
  show ?case
  proof (cases "denomA < denomB")
    case True
    with "3.IH"(1) show ?thesis by auto
  next
    case False
    show ?thesis
    proof (cases "denomA = denomB")
      case True
      with False "3.IH"(2) show ?thesis by auto
    next
      case ne: False
      with False "3.IH"(3) show ?thesis by auto
    qed
  qed
qed


lemma denomsSorted_append1:
  "denomsSorted ((if P then [(k, v)] else []) @ xs) \<longleftrightarrow>
     (if P then (\<forall>c \<in> set xs. k < fst c) \<and> denomsSorted xs else denomsSorted xs)"
  by (simp add: denomsSorted_Cons)

lemma denomsSorted_sumCoins:
  "denomsSorted a \<Longrightarrow> denomsSorted b \<Longrightarrow> denomsSorted (sumCoins a b)"
proof (induction a b rule: sumCoins.induct)
  case (1 coinsB)
  then show ?case by (simp add: denomsSorted_removeZero)
next
  case (2 v va)
  then show ?case using denomsSorted_removeZero [of "v # va"] by simp
next
  case (3 denomA amtA restA denomB amtB restB)
  from "3.prems" have A: "\<forall>c \<in> set restA. denomA < fst c" "denomsSorted restA"
    and B: "\<forall>c \<in> set restB. denomB < fst c" "denomsSorted restB"
    by (simp_all add: denomsSorted_Cons)
  show ?case
  proof (cases "denomA < denomB")
    case True
    have srt: "denomsSorted (sumCoins restA ((denomB, amtB) # restB))"
      using "3.IH"(1) [OF True A(2) "3.prems"(2)] .
    have "\<forall>c \<in> set (sumCoins restA ((denomB, amtB) # restB)). denomA < fst c"
      using keys_sumCoins [of restA "(denomB, amtB) # restB"] A(1) B(1) True by fastforce
    with srt True show ?thesis by (simp add: denomsSorted_Cons)
  next
    case False
    show ?thesis
    proof (cases "denomA = denomB")
      case True
      have srt: "denomsSorted (sumCoins restA restB)"
        using "3.IH"(2) [OF False True A(2) B(2)] .
      have "\<forall>c \<in> set (sumCoins restA restB). denomA < fst c"
        using keys_sumCoins [of restA restB] A(1) B(1) True by fastforce
      with srt True show ?thesis by (simp add: denomsSorted_Cons)
    next
      case ne: False
      with False have lt: "denomB < denomA" by simp
      have srt: "denomsSorted (sumCoins ((denomA, amtA) # restA) restB)"
        using "3.IH"(3) [OF False ne "3.prems"(1) B(2)] .
      have "\<forall>c \<in> set (sumCoins ((denomA, amtA) # restA) restB). denomB < fst c"
        using keys_sumCoins [of "(denomA, amtA) # restA" restB] A(1) B(1) lt by fastforce
      with srt False ne show ?thesis by (simp add: denomsSorted_Cons)
    qed
  qed
qed

lemma AmountOf_append1:
  "AmountOf ((if v \<noteq> 0 then [(k, v)] else []) @ xs) d = (if d = k \<and> v \<noteq> 0 then v else AmountOf xs d)"
  by (simp add: AmountOf_Cons)

lemma AmountOf_sumCoins:
  "denomsSorted a \<Longrightarrow> denomsSorted b \<Longrightarrow>
   AmountOf (sumCoins a b) d = AmountOf a d + AmountOf b d"
proof (induction a b rule: sumCoins.induct)
  case (1 coinsB)
  then show ?case by (simp add: AmountOf_removeZero AmountOf_Nil)
next
  case (2 v va)
  then show ?case using AmountOf_removeZero [of "v # va" d] by (simp add: AmountOf_Nil)
next
  case (3 denomA amtA restA denomB amtB restB)
  from "3.prems" have A: "\<forall>c \<in> set restA. denomA < fst c" "denomsSorted restA"
    and B: "\<forall>c \<in> set restB. denomB < fst c" "denomsSorted restB"
    by (simp_all add: denomsSorted_Cons)
  show ?case
  proof (cases "denomA < denomB")
    case True
    have ih: "AmountOf (sumCoins restA ((denomB, amtB) # restB)) d
                = AmountOf restA d + AmountOf ((denomB, amtB) # restB) d"
      using "3.IH"(1) [OF True A(2) "3.prems"(2)] .
    have zA: "d = denomA \<Longrightarrow> AmountOf restA d = 0"
      using AmountOf_below [OF A(1), of d] by simp
    have zB: "d = denomA \<Longrightarrow> AmountOf ((denomB, amtB) # restB) d = 0"
      using AmountOf_below [OF B(1), of d] True by (auto simp: AmountOf_Cons)
    show ?thesis using True ih zA zB by (auto simp: AmountOf_Cons)
  next
    case False
    show ?thesis
    proof (cases "denomA = denomB")
      case True
      have ih: "AmountOf (sumCoins restA restB) d = AmountOf restA d + AmountOf restB d"
        using "3.IH"(2) [OF False True A(2) B(2)] .
      have zA: "d = denomA \<Longrightarrow> AmountOf restA d = 0"
        using AmountOf_below [OF A(1), of d] by simp
      have zB: "d = denomA \<Longrightarrow> AmountOf restB d = 0"
        using AmountOf_below [OF B(1), of d] True by simp
      show ?thesis using True ih zA zB by (auto simp: AmountOf_Cons)
    next
      case ne: False
      with False have lt: "denomB < denomA" by simp
      have ih: "AmountOf (sumCoins ((denomA, amtA) # restA) restB) d
                  = AmountOf ((denomA, amtA) # restA) d + AmountOf restB d"
        using "3.IH"(3) [OF False ne "3.prems"(1) B(2)] .
      have zB: "d = denomB \<Longrightarrow> AmountOf restB d = 0"
        using AmountOf_below [OF B(1), of d] by simp
      have zA: "d = denomB \<Longrightarrow> AmountOf ((denomA, amtA) # restA) d = 0"
        using AmountOf_below [OF A(1), of d] lt by (auto simp: AmountOf_Cons)
      show ?thesis using False ne ih zA zB by (auto simp: AmountOf_Cons)
    qed
  qed
qed


lemma AmountOf_negative: "AmountOf (negative a) d = - AmountOf a d"
  by (induction a) (auto simp: negative_def Dec_Neg_def AmountOf_def)

lemma denomsSorted_negative: "denomsSorted (negative a) = denomsSorted a"
  by (simp add: denomsSorted_def negative_def comp_def)

lemma IsAnyNegative_set: "IsAnyNegative a \<longleftrightarrow> (\<exists>c \<in> set a. snd c < 0)"
  by (simp add: IsAnyNegative_def list_ex_iff)

lemma AmountOf_nonzero_member: "AmountOf a d \<noteq> 0 \<Longrightarrow> (d, AmountOf a d) \<in> set a"
  by (auto simp: AmountOf_def split: option.splits dest: map_of_SomeD)

lemma IsAnyNegative_iff:
  assumes "denomsSorted a"
  shows "IsAnyNegative a \<longleftrightarrow> (\<exists>d. AmountOf a d < 0)"
proof
  assume "IsAnyNegative a"
  then obtain k v where mem: "(k, v) \<in> set a" and neg: "v < 0"
    by (auto simp: IsAnyNegative_set)
  from AmountOf_member [OF assms mem] neg show "\<exists>d. AmountOf a d < 0" by auto
next
  assume "\<exists>d. AmountOf a d < 0"
  then obtain d where neg: "AmountOf a d < 0" by auto
  then have "(d, AmountOf a d) \<in> set a" by (intro AmountOf_nonzero_member) simp
  with neg show "IsAnyNegative a" unfolding IsAnyNegative_set by (intro bexI [of _ "(d, AmountOf a d)"]) simp_all
qed



subsection \<open>The operations with their range checks\<close>

lemma not_overflows_zero: "\<not> overflows 0"
  by (simp add: overflows_def)

lemma overflows_minus: "overflows (- i) = overflows i"
  by (simp add: overflows_def)

lemma Dec_Add_cases:
  "Dec_Add d d2 = (if overflows (d + d2) then Inl IntOverflow else Inr (d + d2))"
  by (simp add: Dec_Add_def)

lemma safeAdd_Inr: "safeAdd a b = Inr s \<Longrightarrow> s = sumCoins a b"
proof (induction a b arbitrary: s rule: sumCoins.induct)
  case (1 coinsB)
  then show ?case by simp
next
  case (2 v va)
  then show ?case by simp
next
  case (3 denomA amtA restA denomB amtB restB)
  show ?case
  proof (cases "denomA < denomB")
    case True
    with "3.prems" obtain rest where r: "safeAdd restA ((denomB, amtB) # restB) = Inr rest"
      and s: "s = (if amtA \<noteq> 0 then [(denomA, amtA)] else []) @ rest"
      by (auto split: sum.splits)
    from "3.IH"(1) [OF True r] s True show ?thesis by simp
  next
    case False
    show ?thesis
    proof (cases "denomA = denomB")
      case True
      with False "3.prems" obtain rest where no: "\<not> overflows (amtA + amtB)"
        and r: "safeAdd restA restB = Inr rest"
        and s: "s = (if amtA + amtB \<noteq> 0 then [(denomA, amtA + amtB)] else []) @ rest"
        by (auto simp: Dec_Add_cases split: sum.splits if_splits)
      from "3.IH"(2) [OF False True r] s False True show ?thesis by simp
    next
      case ne: False
      with False "3.prems" obtain rest where r: "safeAdd ((denomA, amtA) # restA) restB = Inr rest"
        and s: "s = (if amtB \<noteq> 0 then [(denomB, amtB)] else []) @ rest"
        by (auto split: sum.splits)
      from "3.IH"(3) [OF False ne r] s False ne show ?thesis by simp
    qed
  qed
qed

lemma safeAdd_Inl: "safeAdd a b = Inl p \<Longrightarrow> p = IntOverflow"
proof (induction a b rule: sumCoins.induct)
  case (1 coinsB)
  then show ?case by simp
next
  case (2 v va)
  then show ?case by simp
next
  case (3 denomA amtA restA denomB amtB restB)
  show ?case
  proof (cases "denomA < denomB")
    case True
    with "3.prems" have "safeAdd restA ((denomB, amtB) # restB) = Inl p"
      by (auto split: sum.splits)
    from "3.IH"(1) [OF True this] show ?thesis .
  next
    case False
    show ?thesis
    proof (cases "denomA = denomB")
      case True
      show ?thesis
      proof (cases "overflows (amtA + amtB)")
        case ov: True
        with False True "3.prems" show ?thesis by (simp add: Dec_Add_cases)
      next
        case nov: False
        with False True "3.prems" have "safeAdd restA restB = Inl p"
          by (auto simp: Dec_Add_cases split: sum.splits)
        from "3.IH"(2) [OF False True this] show ?thesis .
      qed
    next
      case ne: False
      with False "3.prems" have "safeAdd ((denomA, amtA) # restA) restB = Inl p"
        by (auto split: sum.splits)
      from "3.IH"(3) [OF False ne this] show ?thesis .
    qed
  qed
qed

lemma safeAdd_fits:
  assumes "denomsSorted a" and "denomsSorted b"
    and "\<forall>d. \<not> overflows (AmountOf a d + AmountOf b d)"
  shows "safeAdd a b = Inr (sumCoins a b)"
  using assms
proof (induction a b rule: sumCoins.induct)
  case (1 coinsB)
  then show ?case by simp
next
  case (2 v va)
  then show ?case by simp
next
  case (3 denomA amtA restA denomB amtB restB)
  from "3.prems" have A: "\<forall>c \<in> set restA. denomA < fst c" "denomsSorted restA"
    and B: "\<forall>c \<in> set restB. denomB < fst c" "denomsSorted restB"
    by (simp_all add: denomsSorted_Cons)
  note fit = "3.prems"(3)
  show ?case
  proof (cases "denomA < denomB")
    case True
    have "\<not> overflows (AmountOf restA d + AmountOf ((denomB, amtB) # restB) d)" for d
    proof (cases "d = denomA")
      case eq: True
      have "AmountOf restA d = 0" using AmountOf_below [OF A(1), of d] eq by simp
      moreover have "AmountOf ((denomB, amtB) # restB) d = 0"
        using AmountOf_below [OF B(1), of d] True eq by (auto simp: AmountOf_Cons)
      ultimately show ?thesis by (simp add: not_overflows_zero)
    next
      case neq: False
      with fit [rule_format, of d] show ?thesis by (simp add: AmountOf_Cons)
    qed
    then have "safeAdd restA ((denomB, amtB) # restB) = Inr (sumCoins restA ((denomB, amtB) # restB))"
      using "3.IH"(1) [OF True A(2) "3.prems"(2)] by blast
    with True show ?thesis by simp
  next
    case False
    show ?thesis
    proof (cases "denomA = denomB")
      case True
      from fit [rule_format, of denomA] True have no: "\<not> overflows (amtA + amtB)"
        by (simp add: AmountOf_Cons)
      have "\<not> overflows (AmountOf restA d + AmountOf restB d)" for d
      proof (cases "d = denomA")
        case eq: True
        have "AmountOf restA d = 0" using AmountOf_below [OF A(1), of d] eq by simp
        moreover have "AmountOf restB d = 0"
          using AmountOf_below [OF B(1), of d] True eq by simp
        ultimately show ?thesis by (simp add: not_overflows_zero)
      next
        case neq: False
        with fit [rule_format, of d] True show ?thesis by (simp add: AmountOf_Cons)
      qed
      then have "safeAdd restA restB = Inr (sumCoins restA restB)"
        using "3.IH"(2) [OF False True A(2) B(2)] by blast
      with False True no show ?thesis by (simp add: Dec_Add_cases)
    next
      case ne: False
      with False have lt: "denomB < denomA" by simp
      have "\<not> overflows (AmountOf ((denomA, amtA) # restA) d + AmountOf restB d)" for d
      proof (cases "d = denomB")
        case eq: True
        have "AmountOf restB d = 0" using AmountOf_below [OF B(1), of d] eq by simp
        moreover have "AmountOf ((denomA, amtA) # restA) d = 0"
          using AmountOf_below [OF A(1), of d] lt eq by (auto simp: AmountOf_Cons)
        ultimately show ?thesis by (simp add: not_overflows_zero)
      next
        case neq: False
        with fit [rule_format, of d] show ?thesis by (simp add: AmountOf_Cons)
      qed
      then have "safeAdd ((denomA, amtA) # restA) restB = Inr (sumCoins ((denomA, amtA) # restA) restB)"
        using "3.IH"(3) [OF False ne "3.prems"(1) B(2)] by blast
      with False ne show ?thesis by simp
    qed
  qed
qed

subsection \<open>Rounding, MulDec and the subtraction\<close>

lemma precisionReuse_pos: "0 < precisionReuse"
  by (simp add: precisionReuse_def)

lemma chopMagnitude_multiple: "chopMagnitude (y * precisionReuse) = y"
  using precisionReuse_pos by (simp add: chopMagnitude_def)

lemma chop_zero: "chopPrecisionAndRound 0 = 0"
  by (simp add: chopPrecisionAndRound_def chopMagnitude_def)

lemma chop_times_minusOne: "chopPrecisionAndRound (x * minusOne) = - x"
proof -
  have e: "x * minusOne = (- x) * precisionReuse"
    by (simp add: minusOne_def NewDec_def)
  show ?thesis
  proof (cases "0 < x")
    case True
    then have "- x < 0" by simp
    from mult_neg_pos [OF this precisionReuse_pos] have neg: "(- x) * precisionReuse < 0" .
    have "- ((- x) * precisionReuse) = x * precisionReuse" by simp
    then have "chopMagnitude (- ((- x) * precisionReuse)) = x"
      by (simp only: chopMagnitude_multiple)
    with neg show ?thesis unfolding e chopPrecisionAndRound_def by (simp only: if_True)
  next
    case False
    then have "0 \<le> - x" by simp
    from mult_nonneg_nonneg [OF this] precisionReuse_pos
    have "0 \<le> (- x) * precisionReuse" by simp
    then have nneg: "\<not> (- x) * precisionReuse < 0" by (simp only: not_less)
    have "chopMagnitude ((- x) * precisionReuse) = - x"
      by (rule chopMagnitude_multiple)
    with nneg show ?thesis unfolding e chopPrecisionAndRound_def by (simp only: if_False)
  qed
qed

lemma Dec_Mul_cases:
  "Dec_Mul d d2 = (if overflows (chopPrecisionAndRound (d * d2)) then Inl IntOverflow
                   else Inr (chopPrecisionAndRound (d * d2)))"
  by (simp add: Dec_Mul_def Let_def)

lemma safeAdd_snoc:
  assumes "\<forall>c \<in> set res. fst c < k \<and> snd c \<noteq> 0" and "v \<noteq> 0"
  shows "safeAdd res [(k, v)] = Inr (res @ [(k, v)])"
  using assms(1)
proof (induction res)
  case Nil
  then show ?case using assms(2) by (simp add: removeZeroDecCoins_def)
next
  case (Cons c res)
  obtain d a where c: "c = (d, a)" by (cases c)
  from Cons.prems have lt: "d < k" and nz: "a \<noteq> 0" and rest: "\<forall>c \<in> set res. fst c < k \<and> snd c \<noteq> 0"
    by (simp_all add: c)
  from Cons.IH [OF rest] lt nz show ?case by (simp add: c)
qed

lemma scaleCoins_Nil: "scaleCoins [] n = []"
  by (simp add: scaleCoins_def removeZeroDecCoins_def)

lemma scaleCoins_Cons:
  "scaleCoins ((k, v) # coins) n =
     (if chopPrecisionAndRound (v * n) \<noteq> 0 then [(k, chopPrecisionAndRound (v * n))] else [])
     @ scaleCoins coins n"
  by (simp add: scaleCoins_def removeZeroDecCoins_def)

lemma MulDec_loop_char:
  assumes "denomsSorted coins"
    and "\<forall>c \<in> set res. snd c \<noteq> 0 \<and> (\<forall>c' \<in> set coins. fst c < fst c')"
  shows "MulDec_loop res coins n =
           (if \<exists>c \<in> set coins. overflows (chopPrecisionAndRound (snd c * n))
            then Inl IntOverflow else Inr (res @ scaleCoins coins n))"
  using assms
proof (induction coins arbitrary: res)
  case Nil
  then show ?case by (simp add: scaleCoins_Nil)
next
  case (Cons c coins)
  obtain k v where c: "c = (k, v)" by (cases c)
  from Cons.prems(1) have below: "\<forall>c \<in> set coins. k < fst c" and srt: "denomsSorted coins"
    by (simp_all add: c denomsSorted_Cons)
  let ?amt = "chopPrecisionAndRound (v * n)"
  show ?case
  proof (cases "overflows ?amt")
    case True
    then show ?thesis by (simp add: c Dec_Mul_cases)
  next
    case nov: False
    show ?thesis
    proof (cases "?amt = 0")
      case True
      from Cons.prems(2) have inv: "\<forall>c \<in> set res. snd c \<noteq> 0 \<and> (\<forall>c' \<in> set coins. fst c < fst c')"
        by simp
      from Cons.IH [OF srt inv] nov True show ?thesis
        by (simp add: c Dec_Mul_cases scaleCoins_Cons)
    next
      case False
      from Cons.prems(2) have "\<forall>c \<in> set res. fst c < k \<and> snd c \<noteq> 0" by (simp add: c)
      from safeAdd_snoc [OF this False]
      have add: "Add res [(k, ?amt)] = Inr (res @ [(k, ?amt)])" by (simp add: Add_def)
      have inv: "\<forall>c \<in> set (res @ [(k, ?amt)]). snd c \<noteq> 0 \<and> (\<forall>c' \<in> set coins. fst c < fst c')"
        using Cons.prems(2) below False by (auto simp: c)
      from Cons.IH [OF srt inv] nov False add show ?thesis
        by (simp add: c Dec_Mul_cases scaleCoins_Cons)
    qed
  qed
qed

lemma MulDec_char:
  assumes "denomsSorted coins"
  shows "MulDec coins n =
           (if \<exists>c \<in> set coins. overflows (chopPrecisionAndRound (snd c * n))
            then Inl IntOverflow else Inr (scaleCoins coins n))"
  using MulDec_loop_char [OF assms, of "[]" n] by (simp add: MulDec_def)

lemma MulDec_Inr: "denomsSorted coins \<Longrightarrow> MulDec coins n = Inr r \<Longrightarrow> r = scaleCoins coins n"
  by (simp add: MulDec_char split: if_splits)

lemma MulDec_Inl: "denomsSorted coins \<Longrightarrow> MulDec coins n = Inl p \<Longrightarrow> p = IntOverflow"
  by (simp add: MulDec_char split: if_splits)

lemma MulDec_fits:
  assumes "denomsSorted coins"
    and "\<forall>d. \<not> overflows (chopPrecisionAndRound (AmountOf coins d * n))"
  shows "MulDec coins n = Inr (scaleCoins coins n)"
proof -
  have "\<not> (\<exists>c \<in> set coins. overflows (chopPrecisionAndRound (snd c * n)))"
  proof
    assume "\<exists>c \<in> set coins. overflows (chopPrecisionAndRound (snd c * n))"
    then obtain k v where mem: "(k, v) \<in> set coins" and ov: "overflows (chopPrecisionAndRound (v * n))"
      by auto
    from AmountOf_member [OF assms(1) mem] ov assms(2) show False by auto
  qed
  then show ?thesis by (simp add: MulDec_char [OF assms(1)])
qed

lemma denomsSorted_scaleCoins: "denomsSorted coins \<Longrightarrow> denomsSorted (scaleCoins coins n)"
proof -
  assume "denomsSorted coins"
  then have "denomsSorted (map (\<lambda>coin. (fst coin, chopPrecisionAndRound (snd coin * n))) coins)"
    by (simp add: denomsSorted_def comp_def)
  then show ?thesis unfolding scaleCoins_def by (rule denomsSorted_removeZero)
qed

lemma nonzero_scaleCoins: "c \<in> set (scaleCoins coins n) \<Longrightarrow> snd c \<noteq> 0"
  unfolding scaleCoins_def by (rule nonzero_removeZero)

lemma AmountOf_map_amount:
  "g 0 = 0 \<Longrightarrow> AmountOf (map (\<lambda>coin. (fst coin, g (snd coin))) coins) d = g (AmountOf coins d)"
  by (induction coins) (auto simp: AmountOf_Nil AmountOf_def)

lemma AmountOf_scaleCoins:
  assumes "denomsSorted coins"
  shows "AmountOf (scaleCoins coins n) d = chopPrecisionAndRound (AmountOf coins d * n)"
proof -
  let ?m = "map (\<lambda>coin. (fst coin, chopPrecisionAndRound (snd coin * n))) coins"
  from assms have "denomsSorted ?m" by (simp add: denomsSorted_def comp_def)
  then have "AmountOf (scaleCoins coins n) d = AmountOf ?m d"
    unfolding scaleCoins_def by (rule AmountOf_removeZero)
  also have "\<dots> = chopPrecisionAndRound (AmountOf coins d * n)"
    using AmountOf_map_amount [of "\<lambda>a. chopPrecisionAndRound (a * n)" coins d]
    by (simp add: chop_zero)
  finally show ?thesis .
qed

lemma SafeSub_Inr:
  "SafeSub a b = Inr (diff, neg) \<Longrightarrow> diff = sumCoins a (negative b) \<and> neg = IsAnyNegative diff"
  by (auto simp: SafeSub_def split: sum.splits dest: safeAdd_Inr)

lemma SafeSub_Inl: "SafeSub a b = Inl p \<Longrightarrow> p = IntOverflow"
  by (auto simp: SafeSub_def split: sum.splits dest: safeAdd_Inl)

lemma AmountOf_diff:
  "denomsSorted a \<Longrightarrow> denomsSorted b \<Longrightarrow>
   AmountOf (sumCoins a (negative b)) d = AmountOf a d - AmountOf b d"
  by (simp add: AmountOf_sumCoins denomsSorted_negative AmountOf_negative)

lemma denomsSorted_diff:
  "denomsSorted a \<Longrightarrow> denomsSorted b \<Longrightarrow> denomsSorted (sumCoins a (negative b))"
  by (simp add: denomsSorted_sumCoins denomsSorted_negative)

lemma IsAnyNegative_diff:
  assumes "denomsSorted a" and "denomsSorted b"
  shows "IsAnyNegative (sumCoins a (negative b)) \<longleftrightarrow> (\<exists>d. AmountOf a d < AmountOf b d)"
proof -
  have "IsAnyNegative (sumCoins a (negative b))
          \<longleftrightarrow> (\<exists>d. AmountOf (sumCoins a (negative b)) d < 0)"
    by (rule IsAnyNegative_iff [OF denomsSorted_diff [OF assms]])
  also have "\<dots> \<longleftrightarrow> (\<exists>d. AmountOf a d < AmountOf b d)"
    by (simp add: AmountOf_diff [OF assms])
  finally show ?thesis .
qed

lemma SafeSub_fits:
  assumes "denomsSorted a" and "denomsSorted b"
    and "\<forall>d. \<not> overflows (AmountOf a d - AmountOf b d)"
  shows "SafeSub a b = Inr (sumCoins a (negative b), IsAnyNegative (sumCoins a (negative b)))"
proof -
  have "safeAdd a (negative b) = Inr (sumCoins a (negative b))"
  proof (rule safeAdd_fits [OF assms(1)])
    show "denomsSorted (negative b)" using assms(2) by (simp add: denomsSorted_negative)
    show "\<forall>d. \<not> overflows (AmountOf a d + AmountOf (negative b) d)"
      using assms(3) by (simp add: AmountOf_negative)
  qed
  then show ?thesis by (simp add: SafeSub_def)
qed

lemma Sub_cases:
  "Sub a b = (case SafeSub a b of Inl p \<Rightarrow> Inl p
              | Inr r \<Rightarrow> if snd r then Inl NegativeCoinAmount else Inr (fst r))"
  by (simp add: Sub_def split: sum.splits prod.splits)

section \<open>The helpers, denomination by denomination\<close>

lemma getTotalRewards_unfold:
  "getTotalRewards accum position g =
     (case Add (InitAccumValue position) g of
        Inl p \<Rightarrow> Inl p
      | Inr initPlusGrowth \<Rightarrow>
          (case Sub (accumValue accum) initPlusGrowth of
             Inl p \<Rightarrow> Inl p
           | Inr diff \<Rightarrow>
               (case MulDec diff (NumShares position) of
                  Inl p \<Rightarrow> Inl p
                | Inr accumulatorRewards \<Rightarrow> Add (UnclaimedRewards position) accumulatorRewards)))"
  by (simp add: getTotalRewards_def Let_def)

lemma Sub_Inr:
  "Sub a b = Inr diff \<Longrightarrow> diff = sumCoins a (negative b) \<and> \<not> IsAnyNegative diff"
  by (auto simp: Sub_def split: sum.splits prod.splits if_splits dest: SafeSub_Inr)

lemma Sub_Inl_negative:
  "Sub a b = Inl NegativeCoinAmount \<Longrightarrow> IsAnyNegative (sumCoins a (negative b))"
  by (auto simp: Sub_def split: sum.splits prod.splits if_splits dest: SafeSub_Inr SafeSub_Inl)

lemma Sub_fits:
  assumes "denomsSorted a" and "denomsSorted b"
    and "\<forall>d. \<not> overflows (AmountOf a d - AmountOf b d)"
  shows "Sub a b = (if \<exists>d. AmountOf a d < AmountOf b d then Inl NegativeCoinAmount
                    else Inr (sumCoins a (negative b)))"
  by (simp add: Sub_def SafeSub_fits [OF assms] IsAnyNegative_diff [OF assms(1,2)])

text \<open>What a returning call of getTotalRewards has computed.\<close>

lemma getTotalRewards_Inr:
  assumes sV: "denomsSorted (accumValue accum)" and sI: "denomsSorted (InitAccumValue position)"
    and sg: "denomsSorted g"
    and r: "getTotalRewards accum position g = Inr rewards"
  shows "rewards = sumCoins (UnclaimedRewards position)
                     (scaleCoins (sumCoins (accumValue accum)
                        (negative (sumCoins (InitAccumValue position) g))) (NumShares position))"
    and "\<forall>d. AmountOf (InitAccumValue position) d + AmountOf g d \<le> AmountOf (accumValue accum) d"
proof -
  let ?s = "sumCoins (InitAccumValue position) g"
  let ?diff = "sumCoins (accumValue accum) (negative ?s)"
  from r obtain s diff acc where a1: "Add (InitAccumValue position) g = Inr s"
    and a2: "Sub (accumValue accum) s = Inr diff"
    and a3: "MulDec diff (NumShares position) = Inr acc"
    and a4: "Add (UnclaimedRewards position) acc = Inr rewards"
    by (auto simp: getTotalRewards_unfold split: sum.splits)
  from a1 have s: "s = ?s" by (simp add: Add_def safeAdd_Inr)
  have ss: "denomsSorted ?s" by (rule denomsSorted_sumCoins [OF sI sg])
  from Sub_Inr [OF a2] have diff: "diff = ?diff" by (simp add: s)
  from Sub_Inr [OF a2] have "\<not> IsAnyNegative diff" by blast
  then have nn: "\<not> IsAnyNegative ?diff" unfolding diff .
  have sd: "denomsSorted ?diff" by (rule denomsSorted_diff [OF sV ss])
  from MulDec_Inr [OF _ a3] sd have acc: "acc = scaleCoins ?diff (NumShares position)"
    by (simp add: diff)
  from a4 show "rewards = sumCoins (UnclaimedRewards position) (scaleCoins ?diff (NumShares position))"
    by (simp add: Add_def safeAdd_Inr acc)
  from nn have "\<not> (\<exists>d. AmountOf (accumValue accum) d < AmountOf ?s d)"
    by (simp add: IsAnyNegative_diff [OF sV ss])
  then show "\<forall>d. AmountOf (InitAccumValue position) d + AmountOf g d \<le> AmountOf (accumValue accum) d"
    by (simp add: AmountOf_sumCoins [OF sI sg] not_less)
qed

text \<open>The amounts of the coin set that a returning call has computed.\<close>

lemma rewards_amounts:
  assumes sV: "denomsSorted V" and sI: "denomsSorted I" and sg: "denomsSorted g"
    and sU: "denomsSorted U"
  shows "denomsSorted (sumCoins U (scaleCoins (sumCoins V (negative (sumCoins I g))) n))"
    and "AmountOf (sumCoins U (scaleCoins (sumCoins V (negative (sumCoins I g))) n)) d
           = AmountOf U d + chopPrecisionAndRound (n * (AmountOf V d - (AmountOf I d + AmountOf g d)))"
proof -
  let ?s = "sumCoins I g"
  let ?diff = "sumCoins V (negative ?s)"
  let ?acc = "scaleCoins ?diff n"
  have ss: "denomsSorted ?s" by (rule denomsSorted_sumCoins [OF sI sg])
  have sd: "denomsSorted ?diff" by (rule denomsSorted_diff [OF sV ss])
  have sa: "denomsSorted ?acc" by (rule denomsSorted_scaleCoins [OF sd])
  show "denomsSorted (sumCoins U ?acc)" by (rule denomsSorted_sumCoins [OF sU sa])
  have "AmountOf (sumCoins U ?acc) d = AmountOf U d + AmountOf ?acc d"
    by (rule AmountOf_sumCoins [OF sU sa])
  also have "AmountOf ?acc d = chopPrecisionAndRound (AmountOf ?diff d * n)"
    by (rule AmountOf_scaleCoins [OF sd])
  also have "AmountOf ?diff d = AmountOf V d - AmountOf ?s d"
    by (rule AmountOf_diff [OF sV ss])
  also have "AmountOf ?s d = AmountOf I d + AmountOf g d"
    by (rule AmountOf_sumCoins [OF sI sg])
  finally show "AmountOf (sumCoins U ?acc) d
           = AmountOf U d + chopPrecisionAndRound (n * (AmountOf V d - (AmountOf I d + AmountOf g d)))"
    by (simp add: mult.commute)
qed

text \<open>A call whose decimal operations all stay in range.\<close>

lemma getTotalRewards_fits:
  assumes sV: "denomsSorted (accumValue accum)" and sI: "denomsSorted (InitAccumValue position)"
    and sg: "denomsSorted g" and sU: "denomsSorted (UnclaimedRewards position)"
    and f1: "\<forall>d. \<not> overflows (AmountOf (InitAccumValue position) d + AmountOf g d)"
    and f2: "\<forall>d. \<not> overflows (AmountOf (accumValue accum) d
                   - (AmountOf (InitAccumValue position) d + AmountOf g d))"
    and f3: "\<forall>d. \<not> overflows (chopPrecisionAndRound (NumShares position
                   * (AmountOf (accumValue accum) d
                        - (AmountOf (InitAccumValue position) d + AmountOf g d))))"
    and f4: "\<forall>d. \<not> overflows (AmountOf (UnclaimedRewards position) d
                   + chopPrecisionAndRound (NumShares position
                       * (AmountOf (accumValue accum) d
                            - (AmountOf (InitAccumValue position) d + AmountOf g d))))"
    and pre: "\<forall>d. AmountOf (InitAccumValue position) d + AmountOf g d \<le> AmountOf (accumValue accum) d"
  shows "getTotalRewards accum position g
           = Inr (sumCoins (UnclaimedRewards position)
                    (scaleCoins (sumCoins (accumValue accum)
                       (negative (sumCoins (InitAccumValue position) g))) (NumShares position)))"
proof -
  let ?s = "sumCoins (InitAccumValue position) g"
  let ?diff = "sumCoins (accumValue accum) (negative ?s)"
  let ?acc = "scaleCoins ?diff (NumShares position)"
  have ss: "denomsSorted ?s" by (rule denomsSorted_sumCoins [OF sI sg])
  have sd: "denomsSorted ?diff" by (rule denomsSorted_diff [OF sV ss])
  have sa: "denomsSorted ?acc" by (rule denomsSorted_scaleCoins [OF sd])
  have as: "AmountOf ?s d = AmountOf (InitAccumValue position) d + AmountOf g d" for d
    by (rule AmountOf_sumCoins [OF sI sg])
  have ad: "AmountOf ?diff d = AmountOf (accumValue accum) d
              - (AmountOf (InitAccumValue position) d + AmountOf g d)" for d
    by (simp add: AmountOf_diff [OF sV ss] as)
  have aa: "AmountOf ?acc d = chopPrecisionAndRound (NumShares position
              * (AmountOf (accumValue accum) d
                   - (AmountOf (InitAccumValue position) d + AmountOf g d)))" for d
    by (simp add: AmountOf_scaleCoins [OF sd] ad mult.commute)
  have a1: "Add (InitAccumValue position) g = Inr ?s"
    unfolding Add_def by (rule safeAdd_fits [OF sI sg f1])
  have "\<forall>d. \<not> overflows (AmountOf (accumValue accum) d - AmountOf ?s d)"
    using f2 by (simp add: as)
  from Sub_fits [OF sV ss this] pre have a2: "Sub (accumValue accum) ?s = Inr ?diff"
    by (simp add: as not_less)
  have "\<forall>d. \<not> overflows (chopPrecisionAndRound (AmountOf ?diff d * NumShares position))"
    using f3 by (simp add: ad mult.commute)
  from MulDec_fits [OF sd this] have a3: "MulDec ?diff (NumShares position) = Inr ?acc" .
  have "\<forall>d. \<not> overflows (AmountOf (UnclaimedRewards position) d + AmountOf ?acc d)"
    using f4 by (simp add: aa)
  from safeAdd_fits [OF sU sa this]
  have a4: "Add (UnclaimedRewards position) ?acc = Inr (sumCoins (UnclaimedRewards position) ?acc)"
    by (simp add: Add_def)
  show ?thesis by (simp add: getTotalRewards_unfold a1 a2 a3 a4)
qed

text \<open>A call with the precondition violated.\<close>

lemma getTotalRewards_violated:
  assumes sV: "denomsSorted (accumValue accum)" and sI: "denomsSorted (InitAccumValue position)"
    and sg: "denomsSorted g"
    and v: "\<exists>d. AmountOf (accumValue accum) d < AmountOf (InitAccumValue position) d + AmountOf g d"
  shows "\<exists>p. getTotalRewards accum position g = Inl p"
proof (cases "getTotalRewards accum position g")
  case (Inl p)
  then show ?thesis by blast
next
  case (Inr rewards)
  from getTotalRewards_Inr(2) [OF sV sI sg Inr] v show ?thesis by (auto simp: not_less [symmetric])
qed

lemma getTotalRewards_negative_only_violated:
  assumes sV: "denomsSorted (accumValue accum)" and sI: "denomsSorted (InitAccumValue position)"
    and sg: "denomsSorted g"
    and r: "getTotalRewards accum position g = Inl NegativeCoinAmount"
  shows "\<exists>d. AmountOf (accumValue accum) d < AmountOf (InitAccumValue position) d + AmountOf g d"
proof -
  let ?s = "sumCoins (InitAccumValue position) g"
  have ss: "denomsSorted ?s" by (rule denomsSorted_sumCoins [OF sI sg])
  show ?thesis
  proof (cases "Add (InitAccumValue position) g")
    case (Inl p)
    with r have "p = NegativeCoinAmount" by (simp add: getTotalRewards_unfold)
    moreover from Inl have "p = IntOverflow" by (simp add: Add_def safeAdd_Inl)
    ultimately show ?thesis by simp
  next
    case (Inr s)
    then have s: "s = ?s" by (simp add: Add_def safeAdd_Inr)
    show ?thesis
    proof (cases "Sub (accumValue accum) s")
      case (Inl p)
      with r Inr have "Sub (accumValue accum) ?s = Inl NegativeCoinAmount"
        by (simp add: getTotalRewards_unfold s)
      from Sub_Inl_negative [OF this] show ?thesis
        by (simp add: IsAnyNegative_diff [OF sV ss] AmountOf_sumCoins [OF sI sg])
    next
      case diff: (Inr diff)
      from Sub_Inr [OF diff] have d: "diff = sumCoins (accumValue accum) (negative ?s)"
        by (simp add: s)
      have sd: "denomsSorted diff" unfolding d by (rule denomsSorted_diff [OF sV ss])
      show ?thesis
      proof (cases "MulDec diff (NumShares position)")
        case (Inl p)
        with r Inr diff have "p = NegativeCoinAmount" by (simp add: getTotalRewards_unfold)
        moreover from MulDec_Inl [OF sd Inl] have "p = IntOverflow" .
        ultimately show ?thesis by simp
      next
        case acc: (Inr acc)
        with r Inr diff have "Add (UnclaimedRewards position) acc = Inl NegativeCoinAmount"
          by (simp add: getTotalRewards_unfold)
        then have "safeAdd (UnclaimedRewards position) acc = Inl NegativeCoinAmount"
          by (simp add: Add_def)
        from safeAdd_Inl [OF this] show ?thesis by simp
      qed
    qed
  qed
qed

lemma getTotalRewards_violated_fits:
  assumes sV: "denomsSorted (accumValue accum)" and sI: "denomsSorted (InitAccumValue position)"
    and sg: "denomsSorted g"
    and f1: "\<forall>d. \<not> overflows (AmountOf (InitAccumValue position) d + AmountOf g d)"
    and f2: "\<forall>d. \<not> overflows (AmountOf (accumValue accum) d
                   - (AmountOf (InitAccumValue position) d + AmountOf g d))"
    and v: "\<exists>d. AmountOf (accumValue accum) d < AmountOf (InitAccumValue position) d + AmountOf g d"
  shows "getTotalRewards accum position g = Inl NegativeCoinAmount"
proof -
  let ?s = "sumCoins (InitAccumValue position) g"
  have ss: "denomsSorted ?s" by (rule denomsSorted_sumCoins [OF sI sg])
  have as: "AmountOf ?s d = AmountOf (InitAccumValue position) d + AmountOf g d" for d
    by (rule AmountOf_sumCoins [OF sI sg])
  have a1: "Add (InitAccumValue position) g = Inr ?s"
    unfolding Add_def by (rule safeAdd_fits [OF sI sg f1])
  have "\<forall>d. \<not> overflows (AmountOf (accumValue accum) d - AmountOf ?s d)"
    using f2 by (simp add: as)
  from Sub_fits [OF sV ss this] v have a2: "Sub (accumValue accum) ?s = Inl NegativeCoinAmount"
    by (simp add: as)
  show ?thesis by (simp add: getTotalRewards_unfold a1 a2)
qed

lemma validateAccumulatorValue_unfold:
  "validateAccumulatorValue custom old =
     (if IsAnyNegative custom then Inr (Some (NegativeCustomAccError custom))
      else
        (case SafeSub custom old of
           Inl p \<Rightarrow> Inl p
         | Inr r \<Rightarrow>
             if snd r then
               (case MulDec (fst r) minusOne of
                  Inl p \<Rightarrow> Inl p
                | Inr deficit \<Rightarrow> Inr (Some (NegativeAccDifferenceError deficit)))
             else Inr None))"
  by (simp add: validateAccumulatorValue_def split: sum.splits prod.splits)

text \<open>The validation of values whose differences stay in range.\<close>

lemma validateAccumulatorValue_fits:
  assumes sc: "denomsSorted custom" and so: "denomsSorted old"
    and f: "\<forall>d. \<not> overflows (AmountOf custom d - AmountOf old d)"
  shows "validateAccumulatorValue custom old =
           (if \<exists>d. AmountOf custom d < 0 then Inr (Some (NegativeCustomAccError custom))
            else if \<exists>d. AmountOf custom d < AmountOf old d
            then Inr (Some (NegativeAccDifferenceError
                   (scaleCoins (sumCoins custom (negative old)) minusOne)))
            else Inr None)"
    and "AmountOf (scaleCoins (sumCoins custom (negative old)) minusOne) d
           = AmountOf old d - AmountOf custom d"
proof -
  let ?diff = "sumCoins custom (negative old)"
  have sd: "denomsSorted ?diff" by (rule denomsSorted_diff [OF sc so])
  have ad: "AmountOf ?diff d = AmountOf custom d - AmountOf old d" for d
    by (rule AmountOf_diff [OF sc so])
  have "\<not> overflows (chopPrecisionAndRound (AmountOf ?diff d * minusOne))" for d
  proof -
    have "overflows (- (AmountOf custom d - AmountOf old d))
            = overflows (AmountOf custom d - AmountOf old d)"
      by (rule overflows_minus)
    with f show ?thesis by (simp only: chop_times_minusOne ad) simp
  qed
  then have "\<forall>d. \<not> overflows (chopPrecisionAndRound (AmountOf ?diff d * minusOne))" by blast
  from MulDec_fits [OF sd this] have m: "MulDec ?diff minusOne = Inr (scaleCoins ?diff minusOne)" .
  show "validateAccumulatorValue custom old =
           (if \<exists>d. AmountOf custom d < 0 then Inr (Some (NegativeCustomAccError custom))
            else if \<exists>d. AmountOf custom d < AmountOf old d
            then Inr (Some (NegativeAccDifferenceError (scaleCoins ?diff minusOne)))
            else Inr None)"
    by (simp add: validateAccumulatorValue_unfold IsAnyNegative_iff [OF sc]
          SafeSub_fits [OF sc so f] IsAnyNegative_diff [OF sc so] m)
  show "AmountOf (scaleCoins ?diff minusOne) d = AmountOf old d - AmountOf custom d"
    by (simp add: AmountOf_scaleCoins [OF sd] chop_times_minusOne ad)
qed

lemma getPosition_initOrUpdatePosition:
  "fst (getPosition (initOrUpdatePosition accum accumulatorValue index numShareUnits unclaimedRewards options) index)
     = Inr \<lparr>NumShares = numShareUnits, InitAccumValue = accumulatorValue,
            UnclaimedRewards = unclaimedRewards, Options = options\<rparr>"
  by (simp add: getPosition_def initOrUpdatePosition_def osmoutils_Get_def MustSet_def)

lemma fst_getPosition:
  "fst (getPosition accum nm) =
     (case store accum (formatPositionPrefixKey (name accum) nm) of
        None \<Rightarrow> Inl (NoPositionError nm)
      | Some Undecodable \<Rightarrow> Inl UnmarshalError
      | Some (Marshalled r) \<Rightarrow> Inr r)"
  by (simp add: getPosition_def osmoutils_Get_def split: option.splits stored.splits)

lemma store_initOrUpdatePosition:
  "store (initOrUpdatePosition accum accumulatorValue index numShareUnits unclaimedRewards options) key
     = (if key = formatPositionPrefixKey (name accum) index
        then Some (Marshalled \<lparr>NumShares = numShareUnits, InitAccumValue = accumulatorValue,
            UnclaimedRewards = unclaimedRewards, Options = options\<rparr>)
        else store accum key)"
  by (simp add: initOrUpdatePosition_def MustSet_def)

lemma fields_initOrUpdatePosition:
  "accumValue (initOrUpdatePosition accum accumulatorValue index numShareUnits unclaimedRewards options)
     = accumValue accum"
  "totalShares (initOrUpdatePosition accum accumulatorValue index numShareUnits unclaimedRewards options)
     = totalShares accum"
  "name (initOrUpdatePosition accum accumulatorValue index numShareUnits unclaimedRewards options)
     = name accum"
  by (simp_all add: initOrUpdatePosition_def)






section \<open>The reward formula\<close>

text \<open>
  C1, as amended. For every accumulator object, position record and growth-outside
  adjustment (coin sets sorted by denomination) with
  accum.value \<ge> InitAccumValue + feeGrowthOutside in every denomination, and with no
  decimal operation of the formula above the 315 bits of the library, getTotalRewards
  returns a coin set whose amount in every denomination is
  UnclaimedRewards + NumShares * (accum.value - (InitAccumValue + feeGrowthOutside)),
  where the product is the library's: rounded to 18 decimal places, half to even. A
  denomination missing from an operand counts as zero.
\<close>

theorem getTotalRewards_formula:
  assumes "denomsSorted (accumValue accum)" and "denomsSorted (InitAccumValue position)"
    and "denomsSorted feeGrowthOutside" and "denomsSorted (UnclaimedRewards position)"
    and "\<forall>d. AmountOf (InitAccumValue position) d + AmountOf feeGrowthOutside d
               \<le> AmountOf (accumValue accum) d"
    and "\<forall>d. \<not> overflows (AmountOf (InitAccumValue position) d + AmountOf feeGrowthOutside d)"
    and "\<forall>d. \<not> overflows (AmountOf (accumValue accum) d
               - (AmountOf (InitAccumValue position) d + AmountOf feeGrowthOutside d))"
    and "\<forall>d. \<not> overflows (chopPrecisionAndRound (NumShares position
               * (AmountOf (accumValue accum) d
                    - (AmountOf (InitAccumValue position) d + AmountOf feeGrowthOutside d))))"
    and "\<forall>d. \<not> overflows (AmountOf (UnclaimedRewards position) d
               + chopPrecisionAndRound (NumShares position
                   * (AmountOf (accumValue accum) d
                        - (AmountOf (InitAccumValue position) d + AmountOf feeGrowthOutside d))))"
  shows "\<exists>rewards. getTotalRewards accum position feeGrowthOutside = Inr rewards
           \<and> denomsSorted rewards
           \<and> (\<forall>d. AmountOf rewards d =
                  AmountOf (UnclaimedRewards position) d
                  + chopPrecisionAndRound (NumShares position
                      * (AmountOf (accumValue accum) d
                           - (AmountOf (InitAccumValue position) d
                                + AmountOf feeGrowthOutside d))))"
proof -
  let ?r = "sumCoins (UnclaimedRewards position)
              (scaleCoins (sumCoins (accumValue accum)
                 (negative (sumCoins (InitAccumValue position) feeGrowthOutside)))
                 (NumShares position))"
  have "getTotalRewards accum position feeGrowthOutside = Inr ?r"
    by (rule getTotalRewards_fits [OF assms(1-4) assms(6-9) assms(5)])
  moreover have "denomsSorted ?r"
    by (rule rewards_amounts(1) [OF assms(1-4)])
  moreover have "\<forall>d. AmountOf ?r d =
                  AmountOf (UnclaimedRewards position) d
                  + chopPrecisionAndRound (NumShares position
                      * (AmountOf (accumValue accum) d
                           - (AmountOf (InitAccumValue position) d
                                + AmountOf feeGrowthOutside d)))"
    by (simp add: rewards_amounts(2) [OF assms(1-4)])
  ultimately show ?thesis by blast
qed

text \<open>
  An instance with a product that is rounded: the value 0.000000000000000003 uX at
  half a share gives 0.000000000000000002 uX, added to an unclaimed
  0.000000000000000001 uX.
\<close>

theorem getTotalRewards_formula_witness:
  "denomsSorted [(''uX'', 3)] \<and> denomsSorted [] \<and> denomsSorted [(''uX'', 1)]
   \<and> (\<forall>d. AmountOf [] d + AmountOf [] d \<le> AmountOf [(''uX'', 3)] d)
   \<and> (\<forall>d. \<not> overflows (AmountOf [] d + AmountOf [] d))
   \<and> (\<forall>d. \<not> overflows (AmountOf [(''uX'', 3)] d - (AmountOf [] d + AmountOf [] d)))
   \<and> (\<forall>d. \<not> overflows (chopPrecisionAndRound (5 * 10 ^ 17
            * (AmountOf [(''uX'', 3)] d - (AmountOf [] d + AmountOf [] d)))))
   \<and> (\<forall>d. \<not> overflows (AmountOf [(''uX'', 1)] d + chopPrecisionAndRound (5 * 10 ^ 17
            * (AmountOf [(''uX'', 3)] d - (AmountOf [] d + AmountOf [] d)))))
   \<and> getTotalRewards
        \<lparr>store = Map.empty, name = ''acc'', accumValue = [(''uX'', 3)], totalShares = 5 * 10 ^ 17\<rparr>
        \<lparr>NumShares = 5 * 10 ^ 17, InitAccumValue = [], UnclaimedRewards = [(''uX'', 1)],
         Options = (None :: unit option)\<rparr>
        []
      = Inr [(''uX'', 3)]"
proof -
  let ?A = "\<lparr>store = Map.empty, name = ''acc'', accumValue = [(''uX'', 3)],
             totalShares = 5 * 10 ^ 17\<rparr> :: unit AccumulatorObject"
  let ?P = "\<lparr>NumShares = 5 * 10 ^ 17, InitAccumValue = [], UnclaimedRewards = [(''uX'', 1)],
         Options = (None :: unit option)\<rparr>"
  have a: "denomsSorted (accumValue ?A)" by (simp add: denomsSorted_def)
  have b: "denomsSorted (InitAccumValue ?P)" by (simp add: denomsSorted_def)
  have c: "denomsSorted []" by (simp add: denomsSorted_def)
  have d: "denomsSorted (UnclaimedRewards ?P)" by (simp add: denomsSorted_def)
  have e: "\<forall>d. AmountOf (InitAccumValue ?P) d + AmountOf [] d \<le> AmountOf (accumValue ?A) d"
    by (simp add: AmountOf_def)
  have f1: "\<forall>d. \<not> overflows (AmountOf (InitAccumValue ?P) d + AmountOf [] d)"
    by (simp add: AmountOf_def overflows_def)
  have f2: "\<forall>d. \<not> overflows (AmountOf (accumValue ?A) d
               - (AmountOf (InitAccumValue ?P) d + AmountOf [] d))"
    by (simp add: AmountOf_def overflows_def maxDecBitLen_def)
  have f3: "\<forall>d. \<not> overflows (chopPrecisionAndRound (NumShares ?P
               * (AmountOf (accumValue ?A) d - (AmountOf (InitAccumValue ?P) d + AmountOf [] d))))"
    by (simp add: AmountOf_def overflows_def maxDecBitLen_def chopPrecisionAndRound_def
          chopMagnitude_def precisionReuse_def fivePrecision_def Precision_def)
  have f4: "\<forall>d. \<not> overflows (AmountOf (UnclaimedRewards ?P) d
               + chopPrecisionAndRound (NumShares ?P
                   * (AmountOf (accumValue ?A) d - (AmountOf (InitAccumValue ?P) d + AmountOf [] d))))"
    by (simp add: AmountOf_def overflows_def maxDecBitLen_def chopPrecisionAndRound_def
          chopMagnitude_def precisionReuse_def fivePrecision_def Precision_def)
  from getTotalRewards_formula [OF a b c d e f1 f2 f3 f4]
  have "\<exists>rewards. getTotalRewards ?A ?P [] = Inr rewards" by blast
  then have g: "getTotalRewards ?A ?P [] = Inr [(''uX'', 3)]"
    by (simp add: getTotalRewards_def Sub_def SafeSub_def Add_def MulDec_def negative_def
          IsAnyNegative_def removeZeroDecCoins_def Dec_Add_def Dec_Neg_def Dec_Mul_def
          chopPrecisionAndRound_def chopMagnitude_def overflows_def maxDecBitLen_def
          precisionReuse_def fivePrecision_def Precision_def)
  from a b c d e f1 f2 f3 f4 g show ?thesis by simp
qed

text \<open>
  The claim as it is written ("for every accumulator value, position record, and
  growth-outside adjustment ... returns") fails where the snapshot exceeds the
  accumulator value: with accum.value empty and a snapshot that is not, the call panics.
\<close>

theorem getTotalRewards_formula_counterexample:
  "getTotalRewards
     \<lparr>store = Map.empty, name = ''acc'', accumValue = [], totalShares = 1\<rparr>
     \<lparr>NumShares = 1, InitAccumValue = [(''uX'', 1)], UnclaimedRewards = [],
      Options = (None :: unit option)\<rparr>
     [] = Inl NegativeCoinAmount"
  by (simp add: getTotalRewards_def Sub_def SafeSub_def Add_def negative_def IsAnyNegative_def
       removeZeroDecCoins_def Dec_Neg_def)





text \<open>
  C10, as amended. When some denomination of InitAccumValue + feeGrowthOutside strictly
  exceeds accum.value, getTotalRewards returns no coin set at all, neither a negative
  nor a clamped one, and it has no error result: it panics. The panic of the subtraction
  on a negative amount occurs only in that case, and it is the outcome in that case
  whenever the sum and the difference stay within the 315 bits of the library. When
  every decimal operation of the formula stays within them, the function returns
  exactly when the precondition holds.
\<close>

theorem getTotalRewards_panics_exactly_when_violated:
  assumes "denomsSorted (accumValue accum)" and "denomsSorted (InitAccumValue position)"
    and "denomsSorted feeGrowthOutside"
  shows "((\<exists>d. AmountOf (accumValue accum) d
                 < AmountOf (InitAccumValue position) d + AmountOf feeGrowthOutside d)
            \<longrightarrow> (\<exists>p. getTotalRewards accum position feeGrowthOutside = Inl p))
         \<and> (getTotalRewards accum position feeGrowthOutside = Inl NegativeCoinAmount
            \<longrightarrow> (\<exists>d. AmountOf (accumValue accum) d
                   < AmountOf (InitAccumValue position) d + AmountOf feeGrowthOutside d))
         \<and> ((\<forall>d. \<not> overflows (AmountOf (InitAccumValue position) d + AmountOf feeGrowthOutside d))
            \<and> (\<forall>d. \<not> overflows (AmountOf (accumValue accum) d
                   - (AmountOf (InitAccumValue position) d + AmountOf feeGrowthOutside d)))
            \<and> (\<exists>d. AmountOf (accumValue accum) d
                   < AmountOf (InitAccumValue position) d + AmountOf feeGrowthOutside d)
            \<longrightarrow> getTotalRewards accum position feeGrowthOutside = Inl NegativeCoinAmount)
         \<and> (denomsSorted (UnclaimedRewards position)
            \<and> (\<forall>d. \<not> overflows (AmountOf (InitAccumValue position) d + AmountOf feeGrowthOutside d))
            \<and> (\<forall>d. \<not> overflows (AmountOf (accumValue accum) d
                   - (AmountOf (InitAccumValue position) d + AmountOf feeGrowthOutside d)))
            \<and> (\<forall>d. \<not> overflows (chopPrecisionAndRound (NumShares position
                   * (AmountOf (accumValue accum) d
                        - (AmountOf (InitAccumValue position) d + AmountOf feeGrowthOutside d)))))
            \<and> (\<forall>d. \<not> overflows (AmountOf (UnclaimedRewards position) d
                   + chopPrecisionAndRound (NumShares position
                       * (AmountOf (accumValue accum) d
                            - (AmountOf (InitAccumValue position) d + AmountOf feeGrowthOutside d)))))
            \<longrightarrow> ((\<exists>rewards. getTotalRewards accum position feeGrowthOutside = Inr rewards)
                 \<longleftrightarrow> (\<forall>d. AmountOf (InitAccumValue position) d + AmountOf feeGrowthOutside d
                          \<le> AmountOf (accumValue accum) d)))"
proof (intro conjI impI)
  assume "\<exists>d. AmountOf (accumValue accum) d
                 < AmountOf (InitAccumValue position) d + AmountOf feeGrowthOutside d"
  then show "\<exists>p. getTotalRewards accum position feeGrowthOutside = Inl p"
    by (rule getTotalRewards_violated [OF assms])
next
  assume "getTotalRewards accum position feeGrowthOutside = Inl NegativeCoinAmount"
  then show "\<exists>d. AmountOf (accumValue accum) d
                 < AmountOf (InitAccumValue position) d + AmountOf feeGrowthOutside d"
    by (rule getTotalRewards_negative_only_violated [OF assms])
next
  assume h: "(\<forall>d. \<not> overflows (AmountOf (InitAccumValue position) d + AmountOf feeGrowthOutside d))
            \<and> (\<forall>d. \<not> overflows (AmountOf (accumValue accum) d
                   - (AmountOf (InitAccumValue position) d + AmountOf feeGrowthOutside d)))
            \<and> (\<exists>d. AmountOf (accumValue accum) d
                   < AmountOf (InitAccumValue position) d + AmountOf feeGrowthOutside d)"
  show "getTotalRewards accum position feeGrowthOutside = Inl NegativeCoinAmount"
    by (rule getTotalRewards_violated_fits [OF assms]) (use h in blast)+
next
  assume h: "denomsSorted (UnclaimedRewards position)
            \<and> (\<forall>d. \<not> overflows (AmountOf (InitAccumValue position) d + AmountOf feeGrowthOutside d))
            \<and> (\<forall>d. \<not> overflows (AmountOf (accumValue accum) d
                   - (AmountOf (InitAccumValue position) d + AmountOf feeGrowthOutside d)))
            \<and> (\<forall>d. \<not> overflows (chopPrecisionAndRound (NumShares position
                   * (AmountOf (accumValue accum) d
                        - (AmountOf (InitAccumValue position) d + AmountOf feeGrowthOutside d)))))
            \<and> (\<forall>d. \<not> overflows (AmountOf (UnclaimedRewards position) d
                   + chopPrecisionAndRound (NumShares position
                       * (AmountOf (accumValue accum) d
                            - (AmountOf (InitAccumValue position) d + AmountOf feeGrowthOutside d)))))"
  show "(\<exists>rewards. getTotalRewards accum position feeGrowthOutside = Inr rewards)
          \<longleftrightarrow> (\<forall>d. AmountOf (InitAccumValue position) d + AmountOf feeGrowthOutside d
                   \<le> AmountOf (accumValue accum) d)"
  proof
    assume "\<exists>rewards. getTotalRewards accum position feeGrowthOutside = Inr rewards"
    then obtain rewards where "getTotalRewards accum position feeGrowthOutside = Inr rewards" ..
    from getTotalRewards_Inr(2) [OF assms this]
    show "\<forall>d. AmountOf (InitAccumValue position) d + AmountOf feeGrowthOutside d
                   \<le> AmountOf (accumValue accum) d" .
  next
    assume pre: "\<forall>d. AmountOf (InitAccumValue position) d + AmountOf feeGrowthOutside d
                   \<le> AmountOf (accumValue accum) d"
    have "getTotalRewards accum position feeGrowthOutside
           = Inr (sumCoins (UnclaimedRewards position)
                    (scaleCoins (sumCoins (accumValue accum)
                       (negative (sumCoins (InitAccumValue position) feeGrowthOutside)))
                       (NumShares position)))"
      by (rule getTotalRewards_fits [OF assms _ _ _ _ _ pre]) (use h in blast)+
    then show "\<exists>rewards. getTotalRewards accum position feeGrowthOutside = Inr rewards" by blast
  qed
qed

theorem getTotalRewards_panics_exactly_when_violated_witness:
  "denomsSorted [(''uX'', 7)] \<and> denomsSorted [(''uX'', 4), (''uY'', 1)] \<and> denomsSorted []
   \<and> (\<exists>d. AmountOf [(''uX'', 7)] d < AmountOf [(''uX'', 4), (''uY'', 1)] d + AmountOf [] d)
   \<and> (\<forall>d. \<not> overflows (AmountOf [(''uX'', 4), (''uY'', 1)] d + AmountOf [] d))
   \<and> (\<forall>d. \<not> overflows (AmountOf [(''uX'', 7)] d
              - (AmountOf [(''uX'', 4), (''uY'', 1)] d + AmountOf [] d)))
   \<and> getTotalRewards
        \<lparr>store = Map.empty, name = ''acc'', accumValue = [(''uX'', 7)], totalShares = 2\<rparr>
        \<lparr>NumShares = 2, InitAccumValue = [(''uX'', 4), (''uY'', 1)], UnclaimedRewards = [],
         Options = (None :: unit option)\<rparr>
        [] = Inl NegativeCoinAmount"
proof -
  let ?A = "\<lparr>store = Map.empty, name = ''acc'', accumValue = [(''uX'', 7)], totalShares = 2\<rparr>
              :: unit AccumulatorObject"
  let ?P = "\<lparr>NumShares = 2, InitAccumValue = [(''uX'', 4), (''uY'', 1)], UnclaimedRewards = [],
         Options = (None :: unit option)\<rparr>"
  have a: "denomsSorted (accumValue ?A)" by (simp add: denomsSorted_def)
  have b: "denomsSorted (InitAccumValue ?P)" by (simp add: denomsSorted_def)
  have c: "denomsSorted []" by (simp add: denomsSorted_def)
  have e: "\<exists>d. AmountOf (accumValue ?A) d < AmountOf (InitAccumValue ?P) d + AmountOf [] d"
    by (rule exI [of _ "''uY''"]) (simp add: AmountOf_def)
  have f1: "\<forall>d. \<not> overflows (AmountOf (InitAccumValue ?P) d + AmountOf [] d)"
    by (simp add: AmountOf_def overflows_def maxDecBitLen_def)
  have f2: "\<forall>d. \<not> overflows (AmountOf (accumValue ?A) d
               - (AmountOf (InitAccumValue ?P) d + AmountOf [] d))"
    by (simp add: AmountOf_def overflows_def maxDecBitLen_def)
  from getTotalRewards_panics_exactly_when_violated [OF a b c] e f1 f2
  have "getTotalRewards ?A ?P [] = Inl NegativeCoinAmount" by blast
  with a b c e f1 f2 show ?thesis by simp
qed

text \<open>
  The claim as it is written ("it aborts only in that case") fails where the
  subtraction leaves the range of the library: with the value 5 * 10^76 uX and the
  snapshot -5 * 10^76 uX the precondition holds, and the subtraction panics with an
  overflow.
\<close>

theorem getTotalRewards_panics_exactly_when_violated_counterexample:
  "AmountOf [(''uX'', NewDec (- 5 * 10 ^ 76))] ''uX'' + AmountOf [] ''uX''
     \<le> AmountOf [(''uX'', NewDec (5 * 10 ^ 76))] ''uX''
   \<and> Add [(''uX'', NewDec (- 5 * 10 ^ 76))] [] = Inr [(''uX'', NewDec (- 5 * 10 ^ 76))]
   \<and> Sub [(''uX'', NewDec (5 * 10 ^ 76))] [(''uX'', NewDec (- 5 * 10 ^ 76))] = Inl IntOverflow
   \<and> getTotalRewards
        \<lparr>store = Map.empty, name = ''acc'', accumValue = [(''uX'', NewDec (5 * 10 ^ 76))],
         totalShares = 1\<rparr>
        \<lparr>NumShares = 1, InitAccumValue = [(''uX'', NewDec (- 5 * 10 ^ 76))], UnclaimedRewards = [],
         Options = (None :: unit option)\<rparr>
        [] = Inl IntOverflow"
  by (simp add: getTotalRewards_def Sub_def SafeSub_def Add_def MulDec_def negative_def
        IsAnyNegative_def removeZeroDecCoins_def Dec_Add_def Dec_Neg_def Dec_Mul_def
        chopPrecisionAndRound_def chopMagnitude_def overflows_def maxDecBitLen_def
        precisionReuse_def fivePrecision_def Precision_def NewDec_def AmountOf_def)


section \<open>Validation of a replacement accumulator value\<close>

text \<open>
  C3, as amended. For coin sets custom and old (sorted by denomination) whose
  difference custom - old stays, in every denomination, within the 315 bits of the
  library, validateAccumulatorValue custom old returns nil if and only if custom is at
  least zero in every denomination and at least old in every denomination, a missing
  denomination counting as zero.
\<close>

theorem validateAccumulatorValue_succeeds_iff:
  assumes "denomsSorted custom" and "denomsSorted old"
    and "\<forall>d. \<not> overflows (AmountOf custom d - AmountOf old d)"
  shows "validateAccumulatorValue custom old = Inr None \<longleftrightarrow>
           (\<forall>d. 0 \<le> AmountOf custom d) \<and> (\<forall>d. AmountOf old d \<le> AmountOf custom d)"
proof -
  have "validateAccumulatorValue custom old = Inr None \<longleftrightarrow>
          \<not> (\<exists>d. AmountOf custom d < 0) \<and> \<not> (\<exists>d. AmountOf custom d < AmountOf old d)"
    by (simp add: validateAccumulatorValue_fits(1) [OF assms])
  also have "\<dots> \<longleftrightarrow> (\<forall>d. 0 \<le> AmountOf custom d) \<and> (\<forall>d. AmountOf old d \<le> AmountOf custom d)"
    by (simp add: not_less)
  finally show ?thesis .
qed

theorem validateAccumulatorValue_succeeds_iff_witness:
  "denomsSorted [(''uX'', 5), (''uY'', 2)] \<and> denomsSorted [(''uX'', 3), (''uZ'', - 1)]
   \<and> (\<forall>d. \<not> overflows (AmountOf [(''uX'', 5), (''uY'', 2)] d
              - AmountOf [(''uX'', 3), (''uZ'', - 1)] d))
   \<and> validateAccumulatorValue [(''uX'', 5), (''uY'', 2)] [(''uX'', 3), (''uZ'', - 1)] = Inr None
   \<and> (\<forall>d. 0 \<le> AmountOf [(''uX'', 5), (''uY'', 2)] d)
   \<and> (\<forall>d. AmountOf [(''uX'', 3), (''uZ'', - 1)] d \<le> AmountOf [(''uX'', 5), (''uY'', 2)] d)"
proof -
  have a: "denomsSorted [(''uX'', 5), (''uY'', 2)]" by (simp add: denomsSorted_def)
  have b: "denomsSorted [(''uX'', 3), (''uZ'', - 1)]" by (simp add: denomsSorted_def)
  have f: "\<forall>d. \<not> overflows (AmountOf [(''uX'', 5), (''uY'', 2)] d
              - AmountOf [(''uX'', 3), (''uZ'', - 1)] d)"
    by (simp add: AmountOf_def overflows_def maxDecBitLen_def)
  have c: "validateAccumulatorValue [(''uX'', 5), (''uY'', 2)] [(''uX'', 3), (''uZ'', - 1)] = Inr None"
    by (simp add: validateAccumulatorValue_def SafeSub_def negative_def IsAnyNegative_def
          removeZeroDecCoins_def Dec_Add_def Dec_Neg_def overflows_def maxDecBitLen_def)
  from a b f c validateAccumulatorValue_succeeds_iff [OF a b f] show ?thesis by simp
qed

text \<open>
  The claim as it is written ("for every pair") fails where the difference leaves the
  range of the library: custom = 5 * 10^76 uX is at least zero and at least
  old = -5 * 10^76 uX, and the subtraction panics with an overflow instead of returning
  nil.
\<close>

theorem validateAccumulatorValue_succeeds_iff_counterexample:
  "0 \<le> AmountOf [(''uX'', NewDec (5 * 10 ^ 76))] ''uX''
   \<and> AmountOf [(''uX'', NewDec (- 5 * 10 ^ 76))] ''uX''
       \<le> AmountOf [(''uX'', NewDec (5 * 10 ^ 76))] ''uX''
   \<and> validateAccumulatorValue [(''uX'', NewDec (5 * 10 ^ 76))] [(''uX'', NewDec (- 5 * 10 ^ 76))]
       = Inl IntOverflow"
  by (simp add: validateAccumulatorValue_def SafeSub_def negative_def IsAnyNegative_def
        removeZeroDecCoins_def Dec_Add_def Dec_Neg_def overflows_def maxDecBitLen_def
        precisionReuse_def Precision_def NewDec_def AmountOf_def)

text \<open>
  C4, as amended. validateAccumulatorValue applies its rules in order. Whenever some
  coin of customValue is negative the result is NegativeCustomAccError carrying
  customValue, whatever the old value is. Otherwise, for sorted coin sets whose
  difference customValue - oldValue stays within the 315 bits of the library in every
  denomination, whenever that difference is negative in some denomination the result
  is NegativeAccDifferenceError carrying the deficit oldValue - customValue,
  denomination by denomination.
\<close>

theorem validateAccumulatorValue_order:
  "((\<exists>coin \<in> set custom. snd coin < 0) \<longrightarrow>
       validateAccumulatorValue custom old = Inr (Some (NegativeCustomAccError custom)))
   \<and> (denomsSorted custom \<and> denomsSorted old
        \<and> (\<forall>d. \<not> overflows (AmountOf custom d - AmountOf old d))
        \<and> (\<forall>d. 0 \<le> AmountOf custom d)
        \<and> (\<exists>d. AmountOf custom d < AmountOf old d) \<longrightarrow>
       (\<exists>deficit. validateAccumulatorValue custom old
                    = Inr (Some (NegativeAccDifferenceError deficit))
          \<and> (\<forall>d. AmountOf deficit d = AmountOf old d - AmountOf custom d)))"
proof (intro conjI impI)
  assume "\<exists>coin \<in> set custom. snd coin < 0"
  then have "IsAnyNegative custom" by (simp add: IsAnyNegative_set)
  then show "validateAccumulatorValue custom old = Inr (Some (NegativeCustomAccError custom))"
    by (simp add: validateAccumulatorValue_unfold)
next
  assume h: "denomsSorted custom \<and> denomsSorted old
        \<and> (\<forall>d. \<not> overflows (AmountOf custom d - AmountOf old d))
        \<and> (\<forall>d. 0 \<le> AmountOf custom d)
        \<and> (\<exists>d. AmountOf custom d < AmountOf old d)"
  then have c: "denomsSorted custom" and ol: "denomsSorted old"
    and f: "\<forall>d. \<not> overflows (AmountOf custom d - AmountOf old d)"
    by blast+
  from h have nn: "\<not> (\<exists>d. AmountOf custom d < 0)" by (simp add: not_less)
  from h have lt: "\<exists>d. AmountOf custom d < AmountOf old d" by blast
  let ?deficit = "scaleCoins (sumCoins custom (negative old)) minusOne"
  have "validateAccumulatorValue custom old = Inr (Some (NegativeAccDifferenceError ?deficit))"
    using nn lt by (simp add: validateAccumulatorValue_fits(1) [OF c ol f])
  moreover have "\<forall>d. AmountOf ?deficit d = AmountOf old d - AmountOf custom d"
    by (simp add: validateAccumulatorValue_fits(2) [OF c ol f])
  ultimately show "\<exists>deficit. validateAccumulatorValue custom old
                    = Inr (Some (NegativeAccDifferenceError deficit))
          \<and> (\<forall>d. AmountOf deficit d = AmountOf old d - AmountOf custom d)"
    by blast
qed

theorem validateAccumulatorValue_order_witness:
  "(\<exists>coin \<in> set ([(''uX'', - 1), (''uY'', 2)] :: DecCoins). snd coin < 0)
   \<and> validateAccumulatorValue [(''uX'', - 1), (''uY'', 2)] [(''uY'', 3)]
       = Inr (Some (NegativeCustomAccError [(''uX'', - 1), (''uY'', 2)]))
   \<and> denomsSorted [(''uX'', 1), (''uY'', 2)] \<and> denomsSorted [(''uY'', 3)]
   \<and> (\<forall>d. \<not> overflows (AmountOf [(''uX'', 1), (''uY'', 2)] d - AmountOf [(''uY'', 3)] d))
   \<and> (\<forall>d. 0 \<le> AmountOf [(''uX'', 1), (''uY'', 2)] d)
   \<and> (\<exists>d. AmountOf [(''uX'', 1), (''uY'', 2)] d < AmountOf [(''uY'', 3)] d)
   \<and> validateAccumulatorValue [(''uX'', 1), (''uY'', 2)] [(''uY'', 3)]
       = Inr (Some (NegativeAccDifferenceError [(''uX'', - 1), (''uY'', 1)]))"
proof -
  have h1: "\<exists>coin \<in> set [(''uX'', - 1), (''uY'', 2 :: int)]. snd coin < 0" by simp
  have c1: "validateAccumulatorValue [(''uX'', - 1), (''uY'', 2)] [(''uY'', 3)]
       = Inr (Some (NegativeCustomAccError [(''uX'', - 1), (''uY'', 2)]))"
    using validateAccumulatorValue_order [of "[(''uX'', - 1), (''uY'', 2)]" "[(''uY'', 3)]"] h1
    by blast
  have a: "denomsSorted [(''uX'', 1), (''uY'', 2)]" by (simp add: denomsSorted_def)
  have b: "denomsSorted [(''uY'', 3)]" by (simp add: denomsSorted_def)
  have f: "\<forall>d. \<not> overflows (AmountOf [(''uX'', 1), (''uY'', 2)] d - AmountOf [(''uY'', 3)] d)"
    by (simp add: AmountOf_def overflows_def maxDecBitLen_def)
  have nn: "\<forall>d. 0 \<le> AmountOf [(''uX'', 1), (''uY'', 2)] d" by (simp add: AmountOf_def)
  have lt: "\<exists>d. AmountOf [(''uX'', 1), (''uY'', 2)] d < AmountOf [(''uY'', 3)] d"
    by (rule exI [of _ "''uY''"]) (simp add: AmountOf_def)
  have "\<exists>deficit. validateAccumulatorValue [(''uX'', 1), (''uY'', 2)] [(''uY'', 3)]
            = Inr (Some (NegativeAccDifferenceError deficit))"
    using validateAccumulatorValue_order [of "[(''uX'', 1), (''uY'', 2)]" "[(''uY'', 3)]"] a b f nn lt
    by blast
  then have c2: "validateAccumulatorValue [(''uX'', 1), (''uY'', 2)] [(''uY'', 3)]
       = Inr (Some (NegativeAccDifferenceError [(''uX'', - 1), (''uY'', 1)]))"
    by (simp add: validateAccumulatorValue_def SafeSub_def negative_def IsAnyNegative_def
          removeZeroDecCoins_def MulDec_def Add_def minusOne_def NewDec_def Dec_Add_def
          Dec_Neg_def Dec_Mul_def chopPrecisionAndRound_def chopMagnitude_def overflows_def
          maxDecBitLen_def precisionReuse_def fivePrecision_def Precision_def)
  from h1 c1 a b f nn lt c2 show ?thesis by blast
qed

text \<open>
  The claim as it is written ("for every input where customValue - oldValue is negative
  in some denomination") fails where another denomination leaves the range of the
  library: customValue = 5 * 10^76 uX has no negative coin, the difference against
  oldValue = -5 * 10^76 uX, 1 uY is negative in uY, and the subtraction panics with an
  overflow on uX before any error is built.
\<close>

theorem validateAccumulatorValue_order_counterexample:
  "\<not> IsAnyNegative [(''uX'', NewDec (5 * 10 ^ 76))]
   \<and> AmountOf [(''uX'', NewDec (5 * 10 ^ 76))] ''uY''
       - AmountOf [(''uX'', NewDec (- 5 * 10 ^ 76)), (''uY'', NewDec 1)] ''uY'' < 0
   \<and> validateAccumulatorValue [(''uX'', NewDec (5 * 10 ^ 76))]
        [(''uX'', NewDec (- 5 * 10 ^ 76)), (''uY'', NewDec 1)]
       = Inl IntOverflow"
  by (simp add: validateAccumulatorValue_def SafeSub_def negative_def IsAnyNegative_def
        removeZeroDecCoins_def Dec_Add_def Dec_Neg_def overflows_def maxDecBitLen_def
        precisionReuse_def Precision_def NewDec_def AmountOf_def)

section \<open>Position record access\<close>

text \<open>
  C6. getPosition returns the record stored under the index when there is one, and
  NoPositionError carrying the index when nothing is stored under it; in every case the
  accumulator object, with its store and so every position record, is after the call
  what it was before.
\<close>

theorem getPosition_result:
  "(store accum (formatPositionPrefixKey (name accum) nm) = Some (Marshalled r) \<longrightarrow>
      fst (getPosition accum nm) = Inr r)
   \<and> (store accum (formatPositionPrefixKey (name accum) nm) = None \<longrightarrow>
      fst (getPosition accum nm) = Inl (NoPositionError nm))
   \<and> snd (getPosition accum nm) = accum"
  by (simp add: getPosition_def osmoutils_Get_def split: option.splits stored.splits)

theorem getPosition_result_witness:
  "store \<lparr>store = [(''acc'', ''a'') \<mapsto> Marshalled \<lparr>NumShares = 100, InitAccumValue = [(''uX'', 10)],
             UnclaimedRewards = [], Options = (None :: unit option)\<rparr>],
          name = ''acc'', accumValue = [(''uX'', 20)], totalShares = 100\<rparr>
       (formatPositionPrefixKey ''acc'' ''a'')
     = Some (Marshalled \<lparr>NumShares = 100, InitAccumValue = [(''uX'', 10)],
             UnclaimedRewards = [], Options = None\<rparr>)
   \<and> fst (getPosition \<lparr>store = [(''acc'', ''a'') \<mapsto> Marshalled \<lparr>NumShares = 100, InitAccumValue = [(''uX'', 10)],
             UnclaimedRewards = [], Options = (None :: unit option)\<rparr>],
          name = ''acc'', accumValue = [(''uX'', 20)], totalShares = 100\<rparr> ''a'')
     = Inr \<lparr>NumShares = 100, InitAccumValue = [(''uX'', 10)], UnclaimedRewards = [], Options = None\<rparr>
   \<and> store \<lparr>store = [(''acc'', ''a'') \<mapsto> Marshalled \<lparr>NumShares = 100, InitAccumValue = [(''uX'', 10)],
             UnclaimedRewards = [], Options = (None :: unit option)\<rparr>],
          name = ''acc'', accumValue = [(''uX'', 20)], totalShares = 100\<rparr>
       (formatPositionPrefixKey ''acc'' ''b'') = None
   \<and> fst (getPosition \<lparr>store = [(''acc'', ''a'') \<mapsto> Marshalled \<lparr>NumShares = 100, InitAccumValue = [(''uX'', 10)],
             UnclaimedRewards = [], Options = (None :: unit option)\<rparr>],
          name = ''acc'', accumValue = [(''uX'', 20)], totalShares = 100\<rparr> ''b'')
     = Inl (NoPositionError ''b'')"
proof -
  let ?r = "\<lparr>NumShares = 100, InitAccumValue = [(''uX'', 10)],
             UnclaimedRewards = [], Options = (None :: unit option)\<rparr>"
  let ?A = "\<lparr>store = [(''acc'', ''a'') \<mapsto> Marshalled ?r],
          name = ''acc'', accumValue = [(''uX'', 20)], totalShares = 100\<rparr>"
  have p: "store ?A (formatPositionPrefixKey (name ?A) ''a'') = Some (Marshalled ?r)"
    by (simp add: formatPositionPrefixKey_def)
  have q: "store ?A (formatPositionPrefixKey (name ?A) ''b'') = None"
    by (simp add: formatPositionPrefixKey_def)
  from getPosition_result [of ?A "''a''" ?r] p
  have 1: "fst (getPosition ?A ''a'') = Inr ?r" by blast
  from getPosition_result [of ?A "''b''" ?r] q
  have 2: "fst (getPosition ?A ''b'') = Inl (NoPositionError ''b'')" by blast
  from p q 1 2 show ?thesis by simp
qed


text \<open>
  C7, as amended. initOrUpdatePosition never fails and, whatever the store held under
  the index, writes a record whose NumShares, UnclaimedRewards and Options are the
  arguments unmodified and whose InitAccumValue is the argument accumulatorValue. That
  is the accumulator's current value only when the caller passes accum.value.
\<close>

theorem initOrUpdatePosition_writes:
  "fst (getPosition (initOrUpdatePosition accum accumulatorValue index numShareUnits
          unclaimedRewards options) index)
     = Inr \<lparr>NumShares = numShareUnits, InitAccumValue = accumulatorValue,
            UnclaimedRewards = unclaimedRewards, Options = options\<rparr>
   \<and> store (initOrUpdatePosition accum accumulatorValue index numShareUnits
          unclaimedRewards options) (formatPositionPrefixKey (name accum) index)
     = Some (Marshalled \<lparr>NumShares = numShareUnits, InitAccumValue = accumulatorValue,
            UnclaimedRewards = unclaimedRewards, Options = options\<rparr>)"
  by (simp add: getPosition_initOrUpdatePosition store_initOrUpdatePosition)

text \<open>
  The claim as it is written (InitAccumValue equals the accumulator's current value at
  call time) fails when the caller passes another value: with accum.value = 5 uX and
  an empty accumulatorValue the record written does not hold accum.value.
\<close>

theorem initOrUpdatePosition_writes_counterexample:
  "fst (getPosition
          (initOrUpdatePosition
             \<lparr>store = Map.empty, name = ''acc'', accumValue = [(''uX'', 5)], totalShares = 0\<rparr>
             [] ''a'' 1 [] (None :: unit option))
          ''a'')
     \<noteq> Inr \<lparr>NumShares = 1,
             InitAccumValue = accumValue
               \<lparr>store = Map.empty, name = ''acc'', accumValue = [(''uX'', 5)], totalShares = 0\<rparr>,
             UnclaimedRewards = [], Options = None\<rparr>"
  by (simp add: getPosition_initOrUpdatePosition)

text \<open>
  C8. initOrUpdatePosition leaves the accumulator's value, totalShares and name as they
  were, leaves every other key of the store as it was, and so leaves the position record
  under every other index as it was.
\<close>

theorem initOrUpdatePosition_frame:
  "accumValue (initOrUpdatePosition accum accumulatorValue index numShareUnits unclaimedRewards options)
     = accumValue accum
   \<and> totalShares (initOrUpdatePosition accum accumulatorValue index numShareUnits unclaimedRewards options)
     = totalShares accum
   \<and> name (initOrUpdatePosition accum accumulatorValue index numShareUnits unclaimedRewards options)
     = name accum
   \<and> (\<forall>key. key \<noteq> formatPositionPrefixKey (name accum) index \<longrightarrow>
        store (initOrUpdatePosition accum accumulatorValue index numShareUnits unclaimedRewards options) key
          = store accum key)
   \<and> (\<forall>other. other \<noteq> index \<longrightarrow>
        fst (getPosition (initOrUpdatePosition accum accumulatorValue index numShareUnits
                            unclaimedRewards options) other)
          = fst (getPosition accum other))"
proof -
  have "fst (getPosition (initOrUpdatePosition accum accumulatorValue index numShareUnits
                            unclaimedRewards options) other)
          = fst (getPosition accum other)" if "other \<noteq> index" for other
  proof -
    from that have "formatPositionPrefixKey (name accum) other \<noteq> formatPositionPrefixKey (name accum) index"
      by (simp add: formatPositionPrefixKey_def)
    then show ?thesis
      by (simp add: fst_getPosition fields_initOrUpdatePosition store_initOrUpdatePosition)
  qed
  then show ?thesis
    by (simp add: fields_initOrUpdatePosition store_initOrUpdatePosition)
qed

theorem initOrUpdatePosition_frame_witness:
  "''b'' \<noteq> ''a''
   \<and> fst (getPosition
        (initOrUpdatePosition
           \<lparr>store = [(''acc'', ''b'') \<mapsto> Marshalled \<lparr>NumShares = 7, InitAccumValue = [],
                UnclaimedRewards = [], Options = (None :: unit option)\<rparr>],
            name = ''acc'', accumValue = [(''uX'', 5)], totalShares = 7\<rparr>
           [(''uX'', 5)] ''a'' 1 [] None) ''b'')
      = Inr \<lparr>NumShares = 7, InitAccumValue = [], UnclaimedRewards = [], Options = None\<rparr>"
proof -
  let ?A = "\<lparr>store = [(''acc'', ''b'') \<mapsto> Marshalled \<lparr>NumShares = 7, InitAccumValue = [],
                UnclaimedRewards = [], Options = (None :: unit option)\<rparr>],
            name = ''acc'', accumValue = [(''uX'', 5)], totalShares = 7\<rparr>"
  have ne: "''b'' \<noteq> ''a''" by simp
  have "\<forall>other. other \<noteq> ''a'' \<longrightarrow>
          fst (getPosition (initOrUpdatePosition ?A [(''uX'', 5)] ''a'' 1 [] None) other)
          = fst (getPosition ?A other)"
    using initOrUpdatePosition_frame [of ?A "[(''uX'', 5)]" "''a''" 1 "[]" None] by (elim conjE)
  then have "fst (getPosition (initOrUpdatePosition ?A [(''uX'', 5)] ''a'' 1 [] None) ''b'')
          = fst (getPosition ?A ''b'')"
    using ne by (elim allE [of _ "''b''"] impE)
  also have "\<dots> = Inr \<lparr>NumShares = 7, InitAccumValue = [], UnclaimedRewards = [], Options = None\<rparr>"
    by (simp add: fst_getPosition formatPositionPrefixKey_def)
  finally show ?thesis using ne by (intro conjI)
qed



section \<open>Settlement\<close>





end
